theory Spec2Isabelle
  imports Complex_Main "HOL-Library.AList"
begin

section \<open>Python values, exceptions and small helpers\<close>

text \<open>
  The embedding follows \<^verbatim>\<open>src/core.py\<close>. A document-graph node (an instance of
  \<^verbatim>\<open>NiceNesting\<close> or \<^verbatim>\<open>NiceDocument\<close>) is an object on a heap. The three private
  attributes \<^verbatim>\<open>_parent\<close>, \<^verbatim>\<open>_name\<close> and \<^verbatim>\<open>_alias\<close> are assigned once in
  \<^verbatim>\<open>__init__\<close> and never again, so a reference to a node carries them, together with
  the object's identity and whether its class derives from \<^verbatim>\<open>NiceDocument\<close>; the
  attributes that hold data live in the heap object and are mutable.
\<close>

datatype kind = NiceDocumentK | NiceNestingK

datatype nref = NRef (oid: nat) (nkind: kind) (nparent: "nref option")
                     (nname: string) (nalias: "string option")

text \<open>
  Python values. A list, a set and a dict are written by their elements in iteration
  order (a set without duplicates); \<open>PNesting\<close> is a reference to a graph node.
  Plain containers have value semantics here: mutating the container an attribute holds
  is writing the attribute.
\<close>

datatype pyval =
    PNone
  | PEllipsis
  | PInt int
  | PStr string
  | PList "pyval list"
  | PSet "pyval list"
  | PDict "(pyval \<times> pyval) list"
  | PNesting nref

text \<open>
  Exceptions. \<open>StoreError\<close> is whatever the store driver raises, \<open>BodyError\<close> whatever
  the code inside a scope raises by itself. \<open>Unmodelled\<close> marks the few places where
  the Python does something this embedding has no value for (it is named at each use).
\<close>

datatype error =
    AttributeError | KeyError | IndexError | TypeError | ValueError | SyntaxError
  | NotImplementedError | StoreError string | BodyError string | Unmodelled

text \<open>\<^verbatim>\<open>a or b\<close> for an optional string \<open>a\<close>: \<^verbatim>\<open>None\<close> and \<^verbatim>\<open>""\<close> are both falsy.\<close>

definition str_or :: "string option \<Rightarrow> string \<Rightarrow> string" where
  "str_or a b = (case a of None \<Rightarrow> b | Some s \<Rightarrow> if s = [] then b else s)"

definition digit_char :: "nat \<Rightarrow> char" where
  "digit_char n = char_of (48 + n)"

fun show_nat :: "nat \<Rightarrow> string" where
  "show_nat n = (if n < 10 then [digit_char n] else show_nat (n div 10) @ [digit_char (n mod 10)])"

declare show_nat.simps [simp del]

definition show_int :: "int \<Rightarrow> string" where
  "show_int i = (if i < 0 then CHR ''-'' # show_nat (nat (- i)) else show_nat (nat i))"

text \<open>
  \<^verbatim>\<open>str(v)\<close> and the rendering of \<^verbatim>\<open>{v}\<close> in an f-string. It is exact for
  \<^verbatim>\<open>None\<close>, \<^verbatim>\<open>Ellipsis\<close>, integers and strings, which is what a key of a stored
  document can be. The text Python prints for a container or an object is not
  modelled: the model renders them as a fixed placeholder.
\<close>

fun py_str :: "pyval \<Rightarrow> string" where
  "py_str PNone = ''None''"
| "py_str PEllipsis = ''Ellipsis''"
| "py_str (PInt i) = show_int i"
| "py_str (PStr s) = s"
| "py_str (PList _) = ''[...]''"
| "py_str (PSet _) = ''{...}''"
| "py_str (PDict _) = ''{...}''"
| "py_str (PNesting _) = ''<object>''"

text \<open>Lists, sets and dicts are unhashable: using one as a dict key raises \<^verbatim>\<open>TypeError\<close>.\<close>

fun hashable :: "pyval \<Rightarrow> bool" where
  "hashable (PList _) = False"
| "hashable (PSet _) = False"
| "hashable (PDict _) = False"
| "hashable _ = True"

text \<open>
  \<^verbatim>\<open>a == b\<close>. Two sets are equal when they have the same elements; everything else is
  compared structurally (so two dicts are compared in insertion order, which is finer
  than Python's comparison).
\<close>

fun py_eq :: "pyval \<Rightarrow> pyval \<Rightarrow> bool" where
  "py_eq (PSet xs) (PSet ys) = (set xs = set ys)"
| "py_eq a b = (a = b)"

text \<open>Iterating a value, as a generator expression or \<^verbatim>\<open>list.extend\<close> does.\<close>

fun py_iter :: "pyval \<Rightarrow> error + pyval list" where
  "py_iter (PList xs) = Inr xs"
| "py_iter (PSet xs) = Inr xs"
| "py_iter (PDict kvs) = Inr (map fst kvs)"
| "py_iter (PStr s) = Inr (map (\<lambda>c. PStr [c]) s)"
| "py_iter _ = Inl TypeError"

text \<open>\<^verbatim>\<open>a + b\<close> on the values the model has.\<close>

fun py_add :: "pyval \<Rightarrow> pyval \<Rightarrow> error + pyval" where
  "py_add (PInt a) (PInt b) = Inr (PInt (a + b))"
| "py_add (PStr a) (PStr b) = Inr (PStr (a @ b))"
| "py_add (PList a) (PList b) = Inr (PList (a @ b))"
| "py_add _ _ = Inl TypeError"

text \<open>
  \<^verbatim>\<open>s.update(xs)\<close> (and \<^verbatim>\<open>set(xs)\<close> from the empty set): later duplicates are
  dropped; an unhashable element raises, with the elements before it already added.
\<close>

fun set_update :: "pyval list \<Rightarrow> pyval list \<Rightarrow> error option \<times> pyval list" where
  "set_update s [] = (None, s)"
| "set_update s (x # xs) =
     (if \<not> hashable x then (Some TypeError, s)
      else set_update (if x \<in> set s then s else s @ [x]) xs)"

text \<open>\<^verbatim>\<open>dict(pairs)\<close>: a later pair with the same key replaces the value in place.\<close>

fun dict_of_pairs :: "(pyval \<times> pyval) list \<Rightarrow> (pyval \<times> pyval) list \<Rightarrow> error + (pyval \<times> pyval) list" where
  "dict_of_pairs d [] = Inr d"
| "dict_of_pairs d ((k, v) # kvs) =
     (if \<not> hashable k then Inl TypeError else dict_of_pairs (AList.update k v d) kvs)"

text \<open>\<^verbatim>\<open>copy(v)\<close> on values: with value semantics a shallow copy is the value itself.\<close>

definition copy_val :: "pyval \<Rightarrow> pyval" where
  "copy_val v = v"

section \<open>Field descriptors and classes\<close>

datatype container_kind = ListK | SetK

text \<open>
  The five descriptor classes, each with the attributes its \<^verbatim>\<open>__init__\<close> stores:
  the default, the converters and \<^verbatim>\<open>real_name\<close> (the alias). A class of nodes is what
  \<^verbatim>\<open>FieldExtractingMeta\<close> leaves in it: \<^verbatim>\<open>_fields\<close> and \<^verbatim>\<open>_nice_nestings\<close>, in
  declaration order. User converters are total functions on values.
\<close>

datatype field =
    Field pyval "pyval \<Rightarrow> pyval" "pyval \<Rightarrow> pyval" "string option"
  | FieldWithContainer container_kind pyval "pyval \<Rightarrow> pyval" "pyval \<Rightarrow> pyval" "string option"
  | FieldWithDict pyval "pyval \<Rightarrow> pyval \<Rightarrow> pyval \<times> pyval" "pyval \<Rightarrow> pyval \<Rightarrow> pyval \<times> pyval"
      "string option"
  | FieldWithNestings cls pyval "pyval \<Rightarrow> pyval" "pyval \<Rightarrow> pyval" "string option"
  | NestingFactory cls "string option"
and cls = Cls (cls_fields: "(string \<times> field) list") (nice_nestings: "(string \<times> field) list")

fun real_name :: "field \<Rightarrow> string option" where
  "real_name (Field d fr tr rn) = rn"
| "real_name (FieldWithContainer k d fr tr rn) = rn"
| "real_name (FieldWithDict d fr tr rn) = rn"
| "real_name (FieldWithNestings c d fr tr rn) = rn"
| "real_name (NestingFactory c rn) = rn"

text \<open>\<^verbatim>\<open>FieldBase.default\<close>: a copy of \<^verbatim>\<open>_default\<close> (\<^verbatim>\<open>...\<close> for a \<^verbatim>\<open>NestingFactory\<close>).\<close>

fun default :: "field \<Rightarrow> pyval" where
  "default (Field d fr tr rn) = copy_val d"
| "default (FieldWithContainer k d fr tr rn) = copy_val d"
| "default (FieldWithDict d fr tr rn) = copy_val d"
| "default (FieldWithNestings c d fr tr rn) = copy_val d"
| "default (NestingFactory c rn) = copy_val PEllipsis"

text \<open>\<^verbatim>\<open>FieldExtractingMeta.__new__\<close>: sort the descriptors of a class body.\<close>

fun is_nesting_field :: "field \<Rightarrow> bool" where
  "is_nesting_field (FieldWithNestings c d fr tr rn) = True"
| "is_nesting_field (NestingFactory c rn) = True"
| "is_nesting_field _ = False"

definition FieldExtractingMeta :: "(string \<times> field) list \<Rightarrow> cls" where
  "FieldExtractingMeta body =
     Cls (filter (\<lambda>(n, f). \<not> is_nesting_field f) body) (filter (\<lambda>(n, f). is_nesting_field f) body)"

text \<open>\<^verbatim>\<open>sized_iterable(xs)\<close>: build the list or the set.\<close>

fun sized_iterable :: "container_kind \<Rightarrow> pyval list \<Rightarrow> error + pyval" where
  "sized_iterable ListK xs = Inr (PList xs)"
| "sized_iterable SetK xs = (case set_update [] xs of (Some e, s) \<Rightarrow> Inl e | (None, s) \<Rightarrow> Inr (PSet s))"

text \<open>
  \<^verbatim>\<open>from_raw(value)\<close> as \<^verbatim>\<open>NiceNesting.__init__\<close> calls it on a member of \<^verbatim>\<open>_fields\<close>.
  The two nesting descriptors take three arguments, so this call raises \<^verbatim>\<open>TypeError\<close>
  on them.
\<close>

fun from_raw :: "field \<Rightarrow> pyval \<Rightarrow> error + pyval" where
  "from_raw (Field d fr tr rn) v = (if v = PNone then Inr (copy_val d) else Inr (fr v))"
| "from_raw (FieldWithContainer k d fr tr rn) v =
     (if v = PNone then Inr (copy_val d)
      else case py_iter v of Inl e \<Rightarrow> Inl e | Inr xs \<Rightarrow> sized_iterable k (map fr xs))"
| "from_raw (FieldWithDict d fr tr rn) v =
     (if v = PNone then Inr (copy_val d)
      else case v of
        PDict kvs \<Rightarrow>
          (case dict_of_pairs [] (map (\<lambda>(k, x). fr k x) kvs) of
             Inl e \<Rightarrow> Inl e | Inr d' \<Rightarrow> Inr (PDict d'))
      | _ \<Rightarrow> Inl AttributeError)"
| "from_raw (FieldWithNestings c d fr tr rn) v = Inl TypeError"
| "from_raw (NestingFactory c rn) v = Inl TypeError"

text \<open>
  \<^verbatim>\<open>to_raw(value)\<close>. A scalar field returns \<^verbatim>\<open>None\<close> for a value equal to its
  default; the nesting descriptors raise.
\<close>

fun to_raw :: "field \<Rightarrow> pyval \<Rightarrow> error + pyval" where
  "to_raw (Field d fr tr rn) v = (if py_eq v d then Inr PNone else Inr (tr v))"
| "to_raw (FieldWithContainer k d fr tr rn) v =
     (case py_iter v of Inl e \<Rightarrow> Inl e | Inr xs \<Rightarrow> sized_iterable k (map tr xs))"
| "to_raw (FieldWithDict d fr tr rn) v =
     (case v of
        PDict kvs \<Rightarrow>
          (case dict_of_pairs [] (map (\<lambda>(k, x). tr k x) kvs) of
             Inl e \<Rightarrow> Inl e | Inr d' \<Rightarrow> Inr (PDict d'))
      | _ \<Rightarrow> Inl AttributeError)"
| "to_raw (FieldWithNestings c d fr tr rn) v = Inl NotImplementedError"
| "to_raw (NestingFactory c rn) v = Inl NotImplementedError"

section \<open>The world: the heap of graph nodes, the store's call log, the clock\<close>

text \<open>
  A heap object has its class (\<^verbatim>\<open>_fields\<close>, \<^verbatim>\<open>_nice_nestings\<close>), its instance
  attributes by name, and \<^verbatim>\<open>_last_used_at\<close> (a float, read only of documents).
  The store driver and \<^verbatim>\<open>time()\<close> are external: the environment gives the outcome
  of each driver call (\<open>Inl\<close>: the call raises; \<open>Inr\<close>: the record found or the
  acknowledgement returned) and the successive readings of the clock. A filter \<^verbatim>\<open>{"_id": id}\<close> is recorded as \<open>id\<close>.
\<close>

type_synonym command = "(string \<times> (string \<times> pyval) list) list"

datatype call = FindOne pyval | UpdateOne pyval command bool | DeleteOne pyval

record obj =
  ocls :: cls
  oattrs :: "string \<rightharpoonup> pyval"
  last_used_at :: real

record world =
  objs :: "nat \<rightharpoonup> obj"
  next_oid :: nat
  calls :: "call list"
  ticks :: nat

record env =
  find_one :: "pyval \<Rightarrow> error + pyval"
  update_one :: "pyval \<Rightarrow> command \<Rightarrow> bool \<Rightarrow> error + pyval"
  delete_one :: "pyval \<Rightarrow> error + pyval"
  clock :: "nat \<Rightarrow> real"

definition time :: "env \<Rightarrow> world \<Rightarrow> real \<times> world" where
  "time ev w = (clock ev (ticks w), w\<lparr>ticks := Suc (ticks w)\<rparr>)"

definition alloc :: "kind \<Rightarrow> cls \<Rightarrow> string \<Rightarrow> nref option \<Rightarrow> string option \<Rightarrow> world \<Rightarrow> nref \<times> world" where
  "alloc k c attr_name parent alias w =
     (NRef (next_oid w) k parent attr_name alias,
      w\<lparr>objs := (objs w)(next_oid w \<mapsto> \<lparr>ocls = c, oattrs = Map.empty, last_used_at = 0\<rparr>),
        next_oid := Suc (next_oid w)\<rparr>)"

text \<open>
  \<^verbatim>\<open>getattr(node, name)\<close> and \<^verbatim>\<open>setattr(node, name, v)\<close> on the instance attributes.
  Methods, properties and the private attributes of a node are not in \<open>oattrs\<close>. A
  reference always points to an allocated object in Python; the model leaves the world
  as it is on a dangling one.
\<close>

definition getattr_node :: "nref \<Rightarrow> string \<Rightarrow> world \<Rightarrow> error + pyval" where
  "getattr_node r n w =
     (case objs w (oid r) of
        None \<Rightarrow> Inl AttributeError
      | Some ob \<Rightarrow> (case oattrs ob n of None \<Rightarrow> Inl AttributeError | Some v \<Rightarrow> Inr v))"

definition setattr_node :: "nref \<Rightarrow> string \<Rightarrow> pyval \<Rightarrow> world \<Rightarrow> world" where
  "setattr_node r n v w =
     (case objs w (oid r) of
        None \<Rightarrow> w
      | Some ob \<Rightarrow> w\<lparr>objs := (objs w)(oid r \<mapsto> ob\<lparr>oattrs := (oattrs ob)(n \<mapsto> v)\<rparr>)\<rparr>)"

definition cls_of :: "nref \<Rightarrow> world \<Rightarrow> cls" where
  "cls_of r w = (case objs w (oid r) of None \<Rightarrow> Cls [] [] | Some ob \<Rightarrow> ocls ob)"

text \<open>\<^verbatim>\<open>data.get(name)\<close> on the wire data a node is built from.\<close>

fun data_get :: "pyval \<Rightarrow> string \<Rightarrow> error + pyval" where
  "data_get (PDict kvs) n = (case map_of kvs (PStr n) of None \<Rightarrow> Inr PNone | Some v \<Rightarrow> Inr v)"
| "data_get _ n = Inl AttributeError"

section \<open>The document graph\<close>

text \<open>The first loop of \<^verbatim>\<open>NiceNesting.__init__\<close>, over \<^verbatim>\<open>_fields\<close>.\<close>

fun init_fields :: "(string \<times> field) list \<Rightarrow> pyval \<Rightarrow> nref \<Rightarrow> world \<Rightarrow> error option \<times> world" where
  "init_fields [] data self w = (None, w)"
| "init_fields ((name, f) # rest) data self w =
     (case data_get data (str_or (real_name f) name) of
        Inl e \<Rightarrow> (Some e, w)
      | Inr raw \<Rightarrow>
          (case from_raw f raw of
             Inl e \<Rightarrow> (Some e, w)
           | Inr v \<Rightarrow> init_fields rest data self (setattr_node self name v w)))"

text \<open>
  \<^verbatim>\<open>NiceNesting.__init__\<close> (\<open>init_node\<close>, for a node of either kind), its second loop
  over \<^verbatim>\<open>_nice_nestings\<close> with the three-argument \<^verbatim>\<open>from_raw\<close> of the two nesting
  descriptors (\<open>init_nestings\<close>), and the dict comprehension of
  \<^verbatim>\<open>FieldWithNestings.from_raw\<close> (\<open>make_children\<close>, the key converted before the child
  is built). A plain field among \<^verbatim>\<open>_nice_nestings\<close> is called with too many arguments.
\<close>

function (sequential) init_node :: "kind \<Rightarrow> cls \<Rightarrow> string \<Rightarrow> pyval \<Rightarrow> nref option \<Rightarrow> string option \<Rightarrow> world \<Rightarrow> (error + nref) \<times> world"
  and init_nestings :: "(string \<times> field) list \<Rightarrow> pyval \<Rightarrow> nref \<Rightarrow> world \<Rightarrow> error option \<times> world"
  and make_children :: "cls \<Rightarrow> (pyval \<Rightarrow> pyval) \<Rightarrow> string \<Rightarrow> nref \<Rightarrow> (pyval \<times> pyval) list \<Rightarrow> (pyval \<times> pyval) list \<Rightarrow> world \<Rightarrow> (error + (pyval \<times> pyval) list) \<times> world"
where
  "init_node k c attr_name data parent alias w =
     (case alloc k c attr_name parent alias w of
        (self, w1) \<Rightarrow>
          (let data' = (if data = PNone then PDict [] else data) in
           case init_fields (cls_fields c) data' self w1 of
             (Some e, w2) \<Rightarrow> (Inl e, w2)
           | (None, w2) \<Rightarrow>
               (case init_nestings (nice_nestings c) data' self w2 of
                  (Some e, w3) \<Rightarrow> (Inl e, w3)
                | (None, w3) \<Rightarrow> (Inr self, w3))))"
| "init_nestings [] data self w = (None, w)"
| "init_nestings ((name, f) # rest) data self w =
     (case data_get data (str_or (real_name f) name) of
        Inl e \<Rightarrow> (Some e, w)
      | Inr raw \<Rightarrow>
          (case f of
             NestingFactory c rn \<Rightarrow>
               (case init_node NiceNestingK c name raw (Some self) rn w of
                  (Inl e, w1) \<Rightarrow> (Some e, w1)
                | (Inr child, w1) \<Rightarrow>
                    init_nestings rest data self (setattr_node self name (PNesting child) w1))
           | FieldWithNestings c d fk tk rn \<Rightarrow>
               (if raw = PNone
                then init_nestings rest data self (setattr_node self name (copy_val d) w)
                else case raw of
                  PDict kvs \<Rightarrow>
                    (case make_children c fk (str_or rn name) self kvs [] w of
                       (Inl e, w1) \<Rightarrow> (Some e, w1)
                     | (Inr children, w1) \<Rightarrow>
                         init_nestings rest data self (setattr_node self name (PDict children) w1))
                | _ \<Rightarrow> (Some AttributeError, w))
           | _ \<Rightarrow> (Some TypeError, w)))"
| "make_children c fk prefix parent [] acc w = (Inr acc, w)"
| "make_children c fk prefix parent ((k, v) # kvs) acc w =
     (let key = fk k in
      case init_node NiceNestingK c [] v (Some parent) (Some (prefix @ ''.'' @ py_str k)) w of
        (Inl e, w1) \<Rightarrow> (Inl e, w1)
      | (Inr child, w1) \<Rightarrow>
          (if \<not> hashable key then (Inl TypeError, w1)
           else make_children c fk prefix parent kvs (AList.update key (PNesting child) acc) w1))"

  by pat_completeness auto
termination
  apply (relation "inv_image (less_than <*lex*> less_than <*lex*> less_than)
     (case_sum (\<lambda>(k, c, r). (size c, 0::nat, 0::nat))
        (case_sum (\<lambda>(fs, r). (size_list (size_prod (\<lambda>_. 0) size) fs, 0, 0))
                  (\<lambda>(c, fk, prefix, parent, kvs, r). (size c, 1, length kvs))))")
  apply auto
  subgoal for k c by (cases c) simp
  done

text \<open>\<^verbatim>\<open>NiceNesting.mongo_name\<close>: \<^verbatim>\<open>self._alias or self._name\<close>.\<close>

definition mongo_name :: "nref \<Rightarrow> string" where
  "mongo_name r = str_or (nalias r) (nname r)"

text \<open>
  \<^verbatim>\<open>route_prefix\<close>: the property of \<^verbatim>\<open>NiceDocument\<close> returns \<^verbatim>\<open>""\<close>; the one of
  \<^verbatim>\<open>NiceNesting\<close> looks at the class of the parent and raises \<^verbatim>\<open>ValueError\<close> when
  there is none. It is a \<^verbatim>\<open>cached_property\<close> of data that never changes, so the
  cached value is the computed one.
\<close>

fun route_prefix :: "nref \<Rightarrow> error + string" where
  "route_prefix (NRef i k p n a) =
     (if k = NiceDocumentK then Inr []
      else case p of
        None \<Rightarrow> Inl ValueError
      | Some q \<Rightarrow>
          if nkind q = NiceDocumentK then Inr (mongo_name (NRef i k p n a) @ ''.'')
          else (case route_prefix q of
                  Inl e \<Rightarrow> Inl e
                | Inr s \<Rightarrow> Inr (s @ mongo_name (NRef i k p n a) @ ''.'')))"

text \<open>\<^verbatim>\<open>document\<close>: the root a node hangs from.\<close>

fun document :: "nref \<Rightarrow> error + nref" where
  "document (NRef i k p n a) =
     (if k = NiceDocumentK then Inr (NRef i k p n a)
      else case p of
        None \<Rightarrow> Inl ValueError
      | Some q \<Rightarrow> if nkind q = NiceDocumentK then Inr q else document q)"

text \<open>\<^verbatim>\<open>data["_id"]\<close>.\<close>

fun data_item :: "pyval \<Rightarrow> string \<Rightarrow> error + pyval" where
  "data_item (PDict kvs) n = (case map_of kvs (PStr n) of None \<Rightarrow> Inl KeyError | Some v \<Rightarrow> Inr v)"
| "data_item _ n = Inl TypeError"

definition set_last_used :: "nref \<Rightarrow> real \<Rightarrow> world \<Rightarrow> world" where
  "set_last_used r t w =
     (case objs w (oid r) of
        None \<Rightarrow> w
      | Some ob \<Rightarrow> w\<lparr>objs := (objs w)(oid r \<mapsto> ob\<lparr>last_used_at := t\<rparr>)\<rparr>)"

definition get_last_used :: "nref \<Rightarrow> world \<Rightarrow> real" where
  "get_last_used r w = (case objs w (oid r) of None \<Rightarrow> 0 | Some ob \<Rightarrow> last_used_at ob)"

text \<open>
  \<^verbatim>\<open>NiceDocument.__init__(data, collection)\<close>. The back-reference \<^verbatim>\<open>collection\<close> is
  only used to reach the store driver, which the environment holds.
\<close>

definition NiceDocument_init :: "env \<Rightarrow> cls \<Rightarrow> pyval \<Rightarrow> world \<Rightarrow> (error + nref) \<times> world" where
  "NiceDocument_init ev c data w =
     (case init_node NiceDocumentK c [] data None None w of
        (Inl e, w1) \<Rightarrow> (Inl e, w1)
      | (Inr self, w1) \<Rightarrow>
          (case data_item data ''_id'' of
             Inl e \<Rightarrow> (Inl e, w1)
           | Inr i \<Rightarrow>
               (case time ev (setattr_node self ''id'' i w1) of
                  (t, w2) \<Rightarrow> (Inr self, set_last_used self t w2))))"

text \<open>
  \<^verbatim>\<open>NiceDocument.minimal(id, collection)\<close>: the object comes from \<^verbatim>\<open>__new__\<close>, every
  plain field gets \<^verbatim>\<open>field.default\<close> and every nesting descriptor
  \<^verbatim>\<open>from_raw(None, name, self)\<close>, which is what \<open>init_nestings\<close> computes on empty data.
  \<^verbatim>\<open>_parent\<close>, \<^verbatim>\<open>_name\<close> and \<^verbatim>\<open>_alias\<close> stay unset, and nothing reads them
  of a document.
\<close>

fun minimal_fields :: "(string \<times> field) list \<Rightarrow> nref \<Rightarrow> world \<Rightarrow> world" where
  "minimal_fields [] self w = w"
| "minimal_fields ((name, f) # rest) self w = minimal_fields rest self (setattr_node self name (default f) w)"

definition minimal :: "env \<Rightarrow> cls \<Rightarrow> pyval \<Rightarrow> world \<Rightarrow> (error + nref) \<times> world" where
  "minimal ev c i w =
     (case alloc NiceDocumentK c [] None None w of
        (self, w1) \<Rightarrow>
          (case init_nestings (nice_nestings c) (PDict [])
                  self (minimal_fields (cls_fields c) self (setattr_node self ''id'' i w1)) of
             (Some e, w2) \<Rightarrow> (Inl e, w2)
           | (None, w2) \<Rightarrow> (case time ev w2 of (t, w3) \<Rightarrow> (Inr self, set_last_used self t w3))))"

section \<open>The change compiler: proxies\<close>

text \<open>
  A \<^verbatim>\<open>CommandMaker\<close>: its nine value slots as a record and the two dicts of child
  proxies, in insertion order. \<open>cm_value = None\<close> is the sentinel \<^verbatim>\<open>MISSING\<close>.
  \<^verbatim>\<open>_underlying\<close> and \<^verbatim>\<open>_underlying_owner\<close> are the values read when the proxy was
  made (\<open>PNone\<close> for \<^verbatim>\<open>None\<close>).
\<close>

record staged =
  underlying :: pyval
  underlying_owner :: pyval
  cm_name :: string
  cm_value :: "pyval option"
  to_inc :: pyval
  to_add :: "pyval list"
  to_remove :: "pyval list"
  to_update :: "(pyval \<times> pyval) list"
  to_pop :: "pyval list"

datatype command_maker =
  CommandMaker (slots: staged) (pseudo_nestings: "(pyval \<times> command_maker) list")
               (pseudo_attrs: "(string \<times> command_maker) list")

text \<open>\<^verbatim>\<open>CommandMaker.__init__(name, value, underlying=..., underlying_owner=...)\<close>.\<close>

definition new_cm :: "string \<Rightarrow> pyval option \<Rightarrow> pyval \<Rightarrow> pyval \<Rightarrow> command_maker" where
  "new_cm name val u ow =
     CommandMaker \<lparr>underlying = u, underlying_owner = ow, cm_name = name, cm_value = val,
                   to_inc = PNone, to_add = [], to_remove = [], to_update = [], to_pop = []\<rparr> [] []"

definition upd_slots :: "(staged \<Rightarrow> staged) \<Rightarrow> command_maker \<Rightarrow> command_maker" where
  "upd_slots g cm = CommandMaker (g (slots cm)) (pseudo_nestings cm) (pseudo_attrs cm)"

definition put_attr :: "string \<Rightarrow> command_maker \<Rightarrow> command_maker \<Rightarrow> command_maker" where
  "put_attr name sub cm =
     CommandMaker (slots cm) (pseudo_nestings cm) (AList.update name sub (pseudo_attrs cm))"

definition put_nesting :: "pyval \<Rightarrow> command_maker \<Rightarrow> command_maker \<Rightarrow> command_maker" where
  "put_nesting key sub cm =
     CommandMaker (slots cm) (AList.update key sub (pseudo_nestings cm)) (pseudo_attrs cm)"

text \<open>
  The names Python finds on a \<^verbatim>\<open>CommandMaker\<close> itself, before \<^verbatim>\<open>__getattr__\<close> is
  asked: its slots and its methods.
\<close>

definition slot_names :: "string list" where
  "slot_names = [''_underlying'', ''_underlying_owner'', ''_name'', ''_value'', ''_to_inc'',
     ''_to_add'', ''_to_remove'', ''_to_update'', ''_to_pop'', ''_pseudo_nestings'',
     ''_pseudo_attrs'']"

definition method_names :: "string list" where
  "method_names = [''_iter_leaves'', ''_inject_nesting_branches'', ''append'', ''extend'',
     ''add'', ''update'', ''remove'', ''pop'']"

text \<open>
  \<^verbatim>\<open>getattr(v, name)\<close> for the value a proxy stands for. Only a graph node has
  attributes in the model; the methods of built-in values are not modelled.
\<close>

fun py_getattr :: "pyval \<Rightarrow> string \<Rightarrow> world \<Rightarrow> error + pyval" where
  "py_getattr (PNesting r) name w = getattr_node r name w"
| "py_getattr _ name w = Inl AttributeError"

text \<open>
  \<^verbatim>\<open>x.name\<close> on a proxy: \<^verbatim>\<open>__getattr__\<close>, which returns the child proxy and keeps it.
  The result is the child and the proxy as it is afterwards. A slot or a method of the
  proxy is found without \<^verbatim>\<open>__getattr__\<close> and is no proxy: \<open>Unmodelled\<close>.
\<close>

definition getattr_cm :: "command_maker \<Rightarrow> string \<Rightarrow> world \<Rightarrow> error + command_maker \<times> command_maker" where
  "getattr_cm cm name w =
     (if name \<in> set (slot_names @ method_names) then Inl Unmodelled
      else case map_of (pseudo_attrs cm) name of
        Some sub \<Rightarrow> Inr (sub, cm)
      | None \<Rightarrow>
          (case py_getattr (underlying (slots cm)) name w of
             Inl e \<Rightarrow> Inl e
           | Inr su \<Rightarrow>
               (let sub = new_cm name None su (underlying (slots cm))
                in Inr (sub, put_attr name sub cm))))"

text \<open>
  \<^verbatim>\<open>x.name = value\<close>: \<^verbatim>\<open>__setattr__\<close> with a value that is no proxy. Writing a slot
  of the proxy itself is \<open>Unmodelled\<close>.
\<close>

definition setattr_cm :: "command_maker \<Rightarrow> string \<Rightarrow> pyval \<Rightarrow> world \<Rightarrow> error + command_maker" where
  "setattr_cm cm name val w =
     (if name \<in> set slot_names then Inl Unmodelled
      else case map_of (pseudo_attrs cm) name of
        Some sub \<Rightarrow> Inr (put_attr name (upd_slots (\<lambda>s. s\<lparr>cm_value := Some val\<rparr>) sub) cm)
      | None \<Rightarrow>
          (case py_getattr (underlying (slots cm)) name w of
             Inl e \<Rightarrow> Inl e
           | Inr su \<Rightarrow> Inr (put_attr name (new_cm name (Some val) su (underlying (slots cm))) cm)))"

text \<open>\<^verbatim>\<open>d.get(key)\<close> on the value a proxy stands for.\<close>

fun py_dict_get :: "pyval \<Rightarrow> pyval \<Rightarrow> error + pyval" where
  "py_dict_get (PDict kvs) key = (case map_of kvs key of None \<Rightarrow> Inr PNone | Some v \<Rightarrow> Inr v)"
| "py_dict_get _ key = Inl AttributeError"

text \<open>
  \<^verbatim>\<open>x[key]\<close>: \<^verbatim>\<open>__getitem__\<close>. A key with no live child gets a child built from no
  data, with the owner of the dict as parent; it is allocated and held by the proxy.
\<close>

definition getitem_cm :: "command_maker \<Rightarrow> pyval \<Rightarrow> world \<Rightarrow> (error + command_maker \<times> command_maker) \<times> world" where
  "getitem_cm cm key w =
     (case underlying_owner (slots cm) of
        PNesting ow \<Rightarrow>
          (case map_of (nice_nestings (cls_of ow w)) (cm_name (slots cm)) of
             Some (FieldWithNestings c d fk tk rn) \<Rightarrow>
               (if \<not> hashable key then (Inl TypeError, w)
                else case map_of (pseudo_nestings cm) key of
                  Some sub \<Rightarrow> (Inr (sub, cm), w)
                | None \<Rightarrow>
                    (case py_dict_get (underlying (slots cm)) key of
                       Inl e \<Rightarrow> (Inl e, w)
                     | Inr found \<Rightarrow>
                         (case (if found = PNone
                                then (case init_node NiceNestingK c [] PNone (Some ow)
                                             (Some (str_or rn (cm_name (slots cm)) @ ''.'' @ py_str (tk key))) w of
                                        (Inl e, w1) \<Rightarrow> (Inl e, w1)
                                      | (Inr child, w1) \<Rightarrow> (Inr (PNesting child), w1))
                                else (Inr found, w)) of
                            (Inl e, w1) \<Rightarrow> (Inl e, w1)
                          | (Inr su, w1) \<Rightarrow>
                              (let sub = new_cm (py_str key) None su (underlying (slots cm))
                               in (Inr (sub, put_nesting key sub cm), w1)))))
           | _ \<Rightarrow> (Inl SyntaxError, w))
      | _ \<Rightarrow> (Inl SyntaxError, w))"

text \<open>\<^verbatim>\<open>x[key] = value\<close>: \<^verbatim>\<open>__setitem__\<close>.\<close>

definition setitem_cm :: "command_maker \<Rightarrow> pyval \<Rightarrow> pyval \<Rightarrow> error + command_maker" where
  "setitem_cm cm key val =
     (case val of
        PNesting r \<Rightarrow> Inl ValueError
      | _ \<Rightarrow>
          if \<not> hashable key then Inl TypeError
          else Inr (upd_slots (\<lambda>s. s\<lparr>to_update := AList.update key val (to_update s)\<rparr>) cm))"

text \<open>\<^verbatim>\<open>__iadd__\<close> and the six staging methods.\<close>

definition iadd :: "command_maker \<Rightarrow> pyval \<Rightarrow> command_maker" where
  "iadd cm val = upd_slots (\<lambda>s. s\<lparr>to_inc := val\<rparr>) cm"

definition append_cm :: "command_maker \<Rightarrow> pyval \<Rightarrow> command_maker" where
  "append_cm cm ob = upd_slots (\<lambda>s. s\<lparr>to_add := to_add s @ [ob]\<rparr>) cm"

definition extend_cm :: "command_maker \<Rightarrow> pyval \<Rightarrow> error + command_maker" where
  "extend_cm cm ob =
     (case py_iter ob of
        Inl e \<Rightarrow> Inl e
      | Inr xs \<Rightarrow> Inr (upd_slots (\<lambda>s. s\<lparr>to_add := to_add s @ xs\<rparr>) cm))"

definition add_cm :: "command_maker \<Rightarrow> pyval \<Rightarrow> command_maker" where
  "add_cm cm ob = upd_slots (\<lambda>s. s\<lparr>to_add := to_add s @ [ob]\<rparr>) cm"

definition update_cm :: "command_maker \<Rightarrow> pyval \<Rightarrow> error + command_maker" where
  "update_cm cm ob =
     (case py_iter ob of
        Inl e \<Rightarrow> Inl e
      | Inr xs \<Rightarrow> Inr (upd_slots (\<lambda>s. s\<lparr>to_add := to_add s @ xs\<rparr>) cm))"

definition remove_cm :: "command_maker \<Rightarrow> pyval \<Rightarrow> command_maker" where
  "remove_cm cm ob = upd_slots (\<lambda>s. s\<lparr>to_remove := to_remove s @ [ob]\<rparr>) cm"

definition pop_cm :: "command_maker \<Rightarrow> pyval \<Rightarrow> command_maker" where
  "pop_cm cm key = upd_slots (\<lambda>s. s\<lparr>to_pop := to_pop s @ [key]\<rparr>) cm"

section \<open>The code inside a scope\<close>

text \<open>
  What the body of \<^verbatim>\<open>async with doc.command_maker() as cmd:\<close> can do with \<^verbatim>\<open>cmd\<close>:
  a statement walks from \<^verbatim>\<open>cmd\<close> along attribute and item accesses to a proxy and
  acts on it; \<open>Raise\<close> is the body raising by itself.
\<close>

datatype step = Attr string | Item pyval

datatype action =
    Assign string pyval
  | AugAdd string pyval
  | SetItem pyval pyval
  | Append pyval
  | Extend pyval
  | Add pyval
  | Update pyval
  | Remove pyval
  | Pop pyval
  | Touch
  | Raise error

datatype stmt = Stmt "step list" action

definition of_result :: "command_maker \<Rightarrow> world \<Rightarrow> error + command_maker \<Rightarrow> error option \<times> command_maker \<times> world" where
  "of_result cm w r = (case r of Inl e \<Rightarrow> (Some e, cm, w) | Inr cm' \<Rightarrow> (None, cm', w))"

text \<open>
  \<^verbatim>\<open>x.name += v\<close> is \<^verbatim>\<open>t = x.name; t = t.__iadd__(v); x.name = t\<close>, and
  \<^verbatim>\<open>__setattr__\<close> returns at once on a value that is a proxy.
\<close>

fun act :: "action \<Rightarrow> command_maker \<Rightarrow> world \<Rightarrow> error option \<times> command_maker \<times> world" where
  "act (Assign name v) cm w = of_result cm w (setattr_cm cm name v w)"
| "act (AugAdd name v) cm w =
     (case getattr_cm cm name w of
        Inl e \<Rightarrow> (Some e, cm, w)
      | Inr (sub, cm') \<Rightarrow> (None, put_attr name (iadd sub v) cm', w))"
| "act (SetItem key v) cm w = of_result cm w (setitem_cm cm key v)"
| "act (Append ob) cm w = (None, append_cm cm ob, w)"
| "act (Extend ob) cm w = of_result cm w (extend_cm cm ob)"
| "act (Add ob) cm w = (None, add_cm cm ob, w)"
| "act (Update ob) cm w = of_result cm w (update_cm cm ob)"
| "act (Remove ob) cm w = (None, remove_cm cm ob, w)"
| "act (Pop key) cm w = (None, pop_cm cm key, w)"
| "act Touch cm w = (None, cm, w)"
| "act (Raise e) cm w = (Some e, cm, w)"

text \<open>A child proxy made on the way stays in its parent also when a later step raises.\<close>

fun navigate :: "step list \<Rightarrow> action \<Rightarrow> command_maker \<Rightarrow> world \<Rightarrow> error option \<times> command_maker \<times> world" where
  "navigate [] a cm w = act a cm w"
| "navigate (Attr name # ps) a cm w =
     (case getattr_cm cm name w of
        Inl e \<Rightarrow> (Some e, cm, w)
      | Inr (sub, cm') \<Rightarrow>
          (case navigate ps a sub w of (r, sub', w') \<Rightarrow> (r, put_attr name sub' cm', w')))"
| "navigate (Item key # ps) a cm w =
     (case getitem_cm cm key w of
        (Inl e, w1) \<Rightarrow> (Some e, cm, w1)
      | (Inr (sub, cm'), w1) \<Rightarrow>
          (case navigate ps a sub w1 of (r, sub', w') \<Rightarrow> (r, put_nesting key sub' cm', w')))"

fun exec_stmt :: "stmt \<Rightarrow> command_maker \<Rightarrow> world \<Rightarrow> error option \<times> command_maker \<times> world" where
  "exec_stmt (Stmt ps a) cm w = navigate ps a cm w"

fun exec_body :: "stmt list \<Rightarrow> command_maker \<Rightarrow> world \<Rightarrow> error option \<times> command_maker \<times> world" where
  "exec_body [] cm w = (None, cm, w)"
| "exec_body (st # sts) cm w =
     (case exec_stmt st cm w of
        (Some e, cm', w') \<Rightarrow> (Some e, cm', w')
      | (None, cm', w') \<Rightarrow> exec_body sts cm' w')"

section \<open>The change compiler: scope exit\<close>

text \<open>\<^verbatim>\<open>_iter_leaves\<close>: attribute children first, then item children.\<close>

fun iter_leaves :: "command_maker \<Rightarrow> command_maker list" where
  "iter_leaves (CommandMaker s ns as) =
     concat (map (\<lambda>magic. if pseudo_attrs magic \<noteq> [] then iter_leaves magic
                          else if pseudo_nestings magic \<noteq> [] then iter_leaves magic
                          else [magic])
                 (map snd as @ map snd ns))"

text \<open>
  The four local dicts of \<^verbatim>\<open>__aexit__\<close>, in insertion order; \<open>extend_at\<close> is
  \<^verbatim>\<open>d[route].extend(xs)\<close> on a \<^verbatim>\<open>defaultdict(list)\<close>.
\<close>

record acc =
  setters :: "(string \<times> pyval) list"
  unsetters :: "(string \<times> pyval) list"
  adders :: "(string \<times> pyval list) list"
  removers :: "(string \<times> pyval list) list"

definition extend_at :: "string \<Rightarrow> pyval list \<Rightarrow> (string \<times> pyval list) list \<Rightarrow> (string \<times> pyval list) list" where
  "extend_at route xs d = AList.update route ((case map_of d route of None \<Rightarrow> [] | Some ys \<Rightarrow> ys) @ xs) d"

text \<open>
  One part of the loop body of \<^verbatim>\<open>__aexit__\<close> gives the exception it raised (if any),
  the local dicts and the world: what it wrote to the graph before raising stays written.
\<close>

definition then_stage :: "error option \<times> acc \<times> world \<Rightarrow> (acc \<Rightarrow> world \<Rightarrow> error option \<times> acc \<times> world) \<Rightarrow> error option \<times> acc \<times> world" where
  "then_stage r g = (case r of (Some e, a, w) \<Rightarrow> (Some e, a, w) | (None, a, w) \<Rightarrow> g a w)"

text \<open>\<^verbatim>\<open>if to_set is Ellipsis: ... elif to_set is not MISSING: ...\<close>\<close>

definition stage_set :: "field \<Rightarrow> string \<Rightarrow> nref \<Rightarrow> string \<Rightarrow> pyval option \<Rightarrow> acc \<Rightarrow> world \<Rightarrow> error option \<times> acc \<times> world" where
  "stage_set f route ow name to_set a w =
     (case to_set of
        None \<Rightarrow> (None, a, w)
      | Some v \<Rightarrow>
          if v = PEllipsis
          then (None, a\<lparr>unsetters := AList.update route (PStr []) (unsetters a)\<rparr>,
                setattr_node ow name (default f) w)
          else (case to_raw f v of
                  Inl e \<Rightarrow> (Some e, a, w)
                | Inr raw \<Rightarrow>
                    (None, a\<lparr>setters := AList.update route raw (setters a)\<rparr>,
                     setattr_node ow name v w)))"

text \<open>\<^verbatim>\<open>if to_inc is not None: ...\<close>\<close>

definition stage_inc :: "field \<Rightarrow> string \<Rightarrow> nref \<Rightarrow> string \<Rightarrow> pyval \<Rightarrow> acc \<Rightarrow> world \<Rightarrow> error option \<times> acc \<times> world" where
  "stage_inc f route ow name inc a w =
     (if inc = PNone then (None, a, w)
      else case getattr_node ow name w of
        Inl e \<Rightarrow> (Some e, a, w)
      | Inr cur \<Rightarrow>
          (case py_add cur inc of
             Inl e \<Rightarrow> (Some e, a, w)
           | Inr new_value \<Rightarrow>
               (case to_raw f new_value of
                  Inl e \<Rightarrow> (Some e, a, w)
                | Inr raw \<Rightarrow>
                    (None, a\<lparr>setters := AList.update route raw (setters a)\<rparr>,
                     setattr_node ow name new_value w))))"

text \<open>\<^verbatim>\<open>if to_add: ...\<close>. A container that is neither list nor set is left alone.\<close>

definition stage_add :: "field \<Rightarrow> string \<Rightarrow> nref \<Rightarrow> string \<Rightarrow> pyval list \<Rightarrow> acc \<Rightarrow> world \<Rightarrow> error option \<times> acc \<times> world" where
  "stage_add f route ow name xs a w =
     (if xs = [] then (None, a, w)
      else case to_raw f (PList xs) of
        Inl e \<Rightarrow> (Some e, a, w)
      | Inr raw \<Rightarrow>
          (case py_iter raw of
             Inl e \<Rightarrow> (Some e, a, w)
           | Inr raws \<Rightarrow>
               (let a' = a\<lparr>adders := extend_at route raws (adders a)\<rparr> in
                case getattr_node ow name w of
                  Inl e \<Rightarrow> (Some e, a', w)
                | Inr (PList ys) \<Rightarrow> (None, a', setattr_node ow name (PList (ys @ xs)) w)
                | Inr (PSet ys) \<Rightarrow>
                    (case set_update ys xs of (r, ys') \<Rightarrow> (r, a', setattr_node ow name (PSet ys') w))
                | Inr _ \<Rightarrow> (None, a', w))))"

text \<open>
  \<^verbatim>\<open>container.remove(el)\<close>: a list drops the first equal element or raises
  \<^verbatim>\<open>ValueError\<close>, a set drops the element or raises \<^verbatim>\<open>KeyError\<close>, and no other
  value of the model has the method.
\<close>

fun list_remove :: "pyval \<Rightarrow> pyval list \<Rightarrow> pyval list option" where
  "list_remove el [] = None"
| "list_remove el (x # xs) =
     (if py_eq x el then Some xs else map_option ((#) x) (list_remove el xs))"

fun container_remove :: "pyval \<Rightarrow> pyval \<Rightarrow> error + pyval" where
  "container_remove (PList ys) el =
     (case list_remove el ys of None \<Rightarrow> Inl ValueError | Some ys' \<Rightarrow> Inr (PList ys'))"
| "container_remove (PSet ys) el =
     (if \<not> hashable el then Inl TypeError
      else if el \<in> set ys then Inr (PSet (removeAll el ys)) else Inl KeyError)"
| "container_remove _ el = Inl AttributeError"

fun remove_each :: "pyval list \<Rightarrow> pyval \<Rightarrow> error option \<times> pyval" where
  "remove_each [] c = (None, c)"
| "remove_each (el # els) c =
     (case container_remove c el of Inl e \<Rightarrow> (Some e, c) | Inr c' \<Rightarrow> remove_each els c')"

text \<open>
  \<^verbatim>\<open>if to_remove: ...\<close>. The local \<^verbatim>\<open>containter\<close> is either the object the attribute
  holds (set by the part before) or falsy, and then it is read from the attribute:
  either way it is the attribute's current value.
\<close>

definition stage_remove :: "field \<Rightarrow> string \<Rightarrow> nref \<Rightarrow> string \<Rightarrow> pyval list \<Rightarrow> acc \<Rightarrow> world \<Rightarrow> error option \<times> acc \<times> world" where
  "stage_remove f route ow name xs a w =
     (if xs = [] then (None, a, w)
      else case getattr_node ow name w of
        Inl e \<Rightarrow> (Some e, a, w)
      | Inr c \<Rightarrow>
          (case to_raw f (PList xs) of
             Inl e \<Rightarrow> (Some e, a, w)
           | Inr raw \<Rightarrow>
               (case py_iter raw of
                  Inl e \<Rightarrow> (Some e, a, w)
                | Inr raws \<Rightarrow>
                    (case remove_each xs c of
                       (r, c') \<Rightarrow>
                         (r, a\<lparr>removers := extend_at route raws (removers a)\<rparr>,
                          setattr_node ow name c' w)))))"

text \<open>
  The loop of \<^verbatim>\<open>if to_update: ...\<close>: \<^verbatim>\<open>dict_attr[key] = val\<close>, then the setter at
  \<^verbatim>\<open>f"{route}.{raw_key}"\<close>. Assigning into a list by index is \<open>Unmodelled\<close>.
\<close>

fun update_items :: "(pyval \<Rightarrow> pyval \<Rightarrow> pyval \<times> pyval) \<Rightarrow> string \<Rightarrow> (pyval \<times> pyval) list \<Rightarrow> pyval \<Rightarrow> (string \<times> pyval) list \<Rightarrow> error option \<times> pyval \<times> (string \<times> pyval) list" where
  "update_items tr route [] d s = (None, d, s)"
| "update_items tr route ((key, val) # kvs) d s =
     (case d of
        PDict items \<Rightarrow>
          (case tr key val of
             (raw_key, raw_value) \<Rightarrow>
               update_items tr route kvs (PDict (AList.update key val items))
                 (AList.update (route @ ''.'' @ py_str raw_key) raw_value s))
      | PList ys \<Rightarrow> (Some Unmodelled, d, s)
      | _ \<Rightarrow> (Some TypeError, d, s))"

definition stage_update :: "field \<Rightarrow> string \<Rightarrow> nref \<Rightarrow> string \<Rightarrow> (pyval \<times> pyval) list \<Rightarrow> acc \<Rightarrow> world \<Rightarrow> error option \<times> acc \<times> world" where
  "stage_update f route ow name kvs a w =
     (if kvs = [] then (None, a, w)
      else case f of
        FieldWithDict d fr tr rn \<Rightarrow>
          (case getattr_node ow name w of
             Inl e \<Rightarrow> (Some e, a, w)
           | Inr dict_attr \<Rightarrow>
               (case update_items tr route kvs dict_attr (setters a) of
                  (r, dict_attr', s') \<Rightarrow> (r, a\<lparr>setters := s'\<rparr>, setattr_node ow name dict_attr' w)))
      | _ \<Rightarrow> (Some SyntaxError, a, w))"

text \<open>
  \<^verbatim>\<open>if to_pop: ...\<close>: the raw key of a \<^verbatim>\<open>FieldWithDict\<close> is
  \<^verbatim>\<open>to_raw_item(x, dict_attr.get(x))[0]\<close>, the one of a \<^verbatim>\<open>FieldWithNestings\<close> is
  \<^verbatim>\<open>to_raw_key(x)\<close>; then \<^verbatim>\<open>dict_attr.pop(key, None)\<close> and the unsetter.
\<close>

definition dict_raw_key :: "(pyval \<Rightarrow> pyval \<Rightarrow> pyval \<times> pyval) \<Rightarrow> pyval \<Rightarrow> pyval \<Rightarrow> error + pyval" where
  "dict_raw_key tr d key =
     (case d of
        PDict items \<Rightarrow>
          if \<not> hashable key then Inl TypeError
          else Inr (fst (tr key (case map_of items key of None \<Rightarrow> PNone | Some v \<Rightarrow> v)))
      | _ \<Rightarrow> Inl AttributeError)"

definition py_dict_pop :: "pyval \<Rightarrow> pyval \<Rightarrow> error + pyval" where
  "py_dict_pop d key =
     (case d of
        PDict items \<Rightarrow> if \<not> hashable key then Inl TypeError else Inr (PDict (AList.delete key items))
      | PList ys \<Rightarrow> Inl TypeError
      | PSet ys \<Rightarrow> Inl TypeError
      | _ \<Rightarrow> Inl AttributeError)"

fun pop_keys :: "(pyval \<Rightarrow> pyval \<Rightarrow> error + pyval) \<Rightarrow> string \<Rightarrow> pyval list \<Rightarrow> pyval \<Rightarrow> (string \<times> pyval) list \<Rightarrow> error option \<times> pyval \<times> (string \<times> pyval) list" where
  "pop_keys to_raw_key route [] d u = (None, d, u)"
| "pop_keys to_raw_key route (key # keys) d u =
     (case to_raw_key d key of
        Inl e \<Rightarrow> (Some e, d, u)
      | Inr raw_key \<Rightarrow>
          (case py_dict_pop d key of
             Inl e \<Rightarrow> (Some e, d, u)
           | Inr d' \<Rightarrow>
               pop_keys to_raw_key route keys d'
                 (AList.update (route @ ''.'' @ py_str raw_key) (PStr []) u)))"

definition stage_pop :: "field \<Rightarrow> string \<Rightarrow> nref \<Rightarrow> string \<Rightarrow> pyval list \<Rightarrow> acc \<Rightarrow> world \<Rightarrow> error option \<times> acc \<times> world" where
  "stage_pop f route ow name keys a w =
     (if keys = [] then (None, a, w)
      else case getattr_node ow name w of
        Inl e \<Rightarrow> (Some e, a, w)
      | Inr dict_attr \<Rightarrow>
          (case (case f of
                   FieldWithDict d fr tr rn \<Rightarrow> Some (dict_raw_key tr)
                 | FieldWithNestings c d fk tk rn \<Rightarrow> Some (\<lambda>d key. Inr (tk key))
                 | _ \<Rightarrow> None) of
             None \<Rightarrow> (Some SyntaxError, a, w)
           | Some to_raw_key \<Rightarrow>
               (case pop_keys to_raw_key route keys dict_attr (unsetters a) of
                  (r, dict_attr', u') \<Rightarrow>
                    (r, a\<lparr>unsetters := u'\<rparr>, setattr_node ow name dict_attr' w))))"

text \<open>The body of the loop \<^verbatim>\<open>for magic in self._iter_leaves()\<close>.\<close>

definition find_field :: "cls \<Rightarrow> string \<Rightarrow> field option" where
  "find_field c name =
     (case map_of (cls_fields c) name of
        Some f \<Rightarrow> Some f
      | None \<Rightarrow> map_of (nice_nestings c) name)"

definition compile_leaf :: "command_maker \<Rightarrow> acc \<Rightarrow> world \<Rightarrow> error option \<times> acc \<times> world" where
  "compile_leaf magic a w =
     (case underlying_owner (slots magic) of
        PNesting ow \<Rightarrow>
          (case find_field (cls_of ow w) (cm_name (slots magic)) of
             None \<Rightarrow> (Some KeyError, a, w)
           | Some f \<Rightarrow>
               (case route_prefix ow of
                  Inl e \<Rightarrow> (Some e, a, w)
                | Inr prefix \<Rightarrow>
                    (let name = cm_name (slots magic);
                         route = prefix @ str_or (real_name f) name
                     in then_stage (then_stage (then_stage (then_stage (then_stage
                          (stage_set f route ow name (cm_value (slots magic)) a w)
                          (stage_inc f route ow name (to_inc (slots magic))))
                          (stage_add f route ow name (to_add (slots magic))))
                          (stage_remove f route ow name (to_remove (slots magic))))
                          (stage_update f route ow name (to_update (slots magic))))
                          (stage_pop f route ow name (to_pop (slots magic))))))
      | _ \<Rightarrow> (Some ValueError, a, w))"

fun compile_leaves :: "command_maker list \<Rightarrow> acc \<Rightarrow> world \<Rightarrow> error option \<times> acc \<times> world" where
  "compile_leaves [] a w = (None, a, w)"
| "compile_leaves (magic # rest) a w =
     (case compile_leaf magic a w of
        (Some e, a', w') \<Rightarrow> (Some e, a', w')
      | (None, a', w') \<Rightarrow> compile_leaves rest a' w')"

text \<open>
  \<^verbatim>\<open>_inject_nesting_branches\<close>. A proxy has item children only when it stands for the
  dict of a \<^verbatim>\<open>FieldWithNestings\<close> attribute (\<^verbatim>\<open>__getitem__\<close> checks it), and then
  \<^verbatim>\<open>self._underlying\<close> is the dict the attribute \<^verbatim>\<open>_name\<close> of the owner holds: the
  model writes there.
\<close>

fun inject_keys :: "nref \<Rightarrow> string \<Rightarrow> (pyval \<times> command_maker) list \<Rightarrow> world \<Rightarrow> world" where
  "inject_keys ow name [] w = w"
| "inject_keys ow name ((key, fake_nesting) # rest) w =
     inject_keys ow name rest
       (case getattr_node ow name w of
          Inr (PDict items) \<Rightarrow>
            if key \<in> fst ` set items then w
            else setattr_node ow name (PDict (items @ [(key, underlying (slots fake_nesting))])) w
        | _ \<Rightarrow> w)"

fun inject_nesting_branches :: "command_maker \<Rightarrow> world \<Rightarrow> world" where
  "inject_nesting_branches (CommandMaker s ns as) w =
     fold (\<lambda>magic. inject_nesting_branches magic) (map snd as @ map snd ns)
       (case underlying_owner s of PNesting ow \<Rightarrow> inject_keys ow (cm_name s) ns w | _ \<Rightarrow> w)"

text \<open>
  The operand of one route: \<^verbatim>\<open>{op: value} if len(value) > 1 else value[0]\<close>, for every
  route in turn.
\<close>

fun collapse_all :: "string \<Rightarrow> (string \<times> pyval list) list \<Rightarrow> error + (string \<times> pyval) list" where
  "collapse_all opr [] = Inr []"
| "collapse_all opr ((key, val) # rest) =
     (case (if length val > 1 then Inr (PDict [(PStr opr, PList val)])
            else (case val of [] \<Rightarrow> Inl IndexError | x # xs \<Rightarrow> Inr x)) of
        Inl e \<Rightarrow> Inl e
      | Inr operand \<Rightarrow>
          (case collapse_all opr rest of
             Inl e \<Rightarrow> Inl e
           | Inr operands \<Rightarrow> Inr ((key, operand) # operands)))"

definition section_of :: "string \<Rightarrow> string \<Rightarrow> (string \<times> pyval list) list \<Rightarrow> error + command" where
  "section_of title opr d =
     (if d = [] then Inr []
      else case collapse_all opr d of Inl e \<Rightarrow> Inl e | Inr operands \<Rightarrow> Inr [(title, operands)])"

fun py_document :: "pyval \<Rightarrow> error + nref" where
  "py_document (PNesting r) = document r"
| "py_document _ = Inl AttributeError"

text \<open>
  The end of \<^verbatim>\<open>__aexit__\<close>: the command, \<^verbatim>\<open>upsert\<close>, and the one call of
  \<^verbatim>\<open>update_one\<close>, which is logged and may raise.
\<close>

definition build_command :: "acc \<Rightarrow> error + command \<times> bool" where
  "build_command a =
     (case section_of ''$addToSet'' ''$each'' (adders a) of
        Inl e \<Rightarrow> Inl e
      | Inr add_section \<Rightarrow>
          (case section_of ''$pull'' ''$in'' (removers a) of
             Inl e \<Rightarrow> Inl e
           | Inr pull_section \<Rightarrow>
               Inr ((if setters a \<noteq> [] then [(''$set'', setters a)] else [])
                    @ (if unsetters a \<noteq> [] then [(''$unset'', unsetters a)] else [])
                    @ add_section @ pull_section,
                    setters a \<noteq> [] \<or> adders a \<noteq> [])))"

definition send :: "env \<Rightarrow> command_maker \<Rightarrow> command \<Rightarrow> bool \<Rightarrow> world \<Rightarrow> error option \<times> world" where
  "send ev self mongo_command upsert w =
     (if mongo_command = [] then (None, w)
      else if underlying (slots self) \<noteq> PNone
      then (case py_document (underlying (slots self)) of
              Inl e \<Rightarrow> (Some e, w)
            | Inr doc \<Rightarrow>
                (case getattr_node doc ''id'' w of
                   Inl e \<Rightarrow> (Some e, w)
                 | Inr i \<Rightarrow>
                     ((case update_one ev i mongo_command upsert of
                         Inl e \<Rightarrow> Some e
                       | Inr ack \<Rightarrow> None),
                      w\<lparr>calls := calls w @ [UpdateOne i mongo_command upsert]\<rparr>)))
      else (Some ValueError, w))"

definition empty_acc :: acc where
  "empty_acc = \<lparr>setters = [], unsetters = [], adders = [], removers = []\<rparr>"

text \<open>
  \<^verbatim>\<open>__aexit__(exc, ...)\<close>: the exception it raises itself (if any) and the world
  after it. With \<open>exc\<close> set it returns \<^verbatim>\<open>None\<close> at once.
\<close>

definition aexit :: "env \<Rightarrow> error option \<Rightarrow> command_maker \<Rightarrow> world \<Rightarrow> error option \<times> world" where
  "aexit ev exc self w =
     (case exc of
        Some e \<Rightarrow> (None, w)
      | None \<Rightarrow>
          (case compile_leaves (iter_leaves self) empty_acc w of
             (Some e, a, w1) \<Rightarrow> (Some e, w1)
           | (None, a, w1) \<Rightarrow>
               (case build_command a of
                  Inl e \<Rightarrow> (Some e, inject_nesting_branches self w1)
                | Inr (mongo_command, upsert) \<Rightarrow>
                    send ev self mongo_command upsert (inject_nesting_branches self w1))))"

text \<open>\<^verbatim>\<open>NiceNesting.command_maker\<close>: the root proxy of a scope over a node.\<close>

definition command_maker :: "nref \<Rightarrow> error + command_maker" where
  "command_maker r =
     (case route_prefix r of
        Inl e \<Rightarrow> Inl e
      | Inr prefix \<Rightarrow> Inr (new_cm prefix None (PNesting r) PNone))"

text \<open>
  \<^verbatim>\<open>async with node.command_maker() as cmd: body\<close>: the exception that leaves the
  statement (if any) and the world after it. \<^verbatim>\<open>__aexit__\<close> returns a falsy value, so
  an exception of the body goes on to the caller.
\<close>

definition scope :: "env \<Rightarrow> nref \<Rightarrow> stmt list \<Rightarrow> world \<Rightarrow> error option \<times> world" where
  "scope ev r body w =
     (case command_maker r of
        Inl e \<Rightarrow> (Some e, w)
      | Inr cmd \<Rightarrow>
          (case exec_body body cmd w of
             (exc, cmd', w1) \<Rightarrow>
               (case aexit ev exc cmd' w1 of
                  (Some e, w2) \<Rightarrow> (Some e, w2)
                | (None, w2) \<Rightarrow> (exc, w2))))"

section \<open>The identity cache\<close>

text \<open>
  \<^verbatim>\<open>NiceCollection\<close>: the cache maps an identifier to the cached document, in insertion
  order; \<open>cache_lifetime = None\<close> is \<^verbatim>\<open>None\<close>. Floats are read as real numbers.
\<close>

record collection =
  cache :: "(pyval \<times> nref) list"
  document_wrapper :: cls
  cache_lifetime :: "real option"
  last_cache_check :: real


text \<open>\<^verbatim>\<open>bad_keys\<close> of \<^verbatim>\<open>_verify_cache_integrity\<close>.\<close>

definition bad_keys :: "real \<Rightarrow> real \<Rightarrow> (pyval \<times> nref) list \<Rightarrow> world \<Rightarrow> pyval list" where
  "bad_keys now lifetime c w =
     map fst (filter (\<lambda>(key, doc). now - get_last_used doc w > lifetime) c)"

text \<open>
  \<^verbatim>\<open>_verify_cache_integrity\<close>: \<^verbatim>\<open>not self.cache_lifetime\<close> holds of \<^verbatim>\<open>None\<close> and
  of zero.
\<close>

definition verify_cache_integrity :: "env \<Rightarrow> collection \<Rightarrow> world \<Rightarrow> collection \<times> world" where
  "verify_cache_integrity ev col w =
     (case cache_lifetime col of
        None \<Rightarrow> (col, w)
      | Some lifetime \<Rightarrow>
          if lifetime = 0 then (col, w)
          else (case time ev w of
                  (now, w1) \<Rightarrow>
                    if now - last_cache_check col < 60 then (col, w1)
                    else (col\<lparr>cache := fold AList.delete (bad_keys now lifetime (cache col) w1) (cache col),
                              last_cache_check := now\<rparr>, w1)))"

text \<open>\<^verbatim>\<open>get_cached_or_minimal(id)\<close>.\<close>

definition get_cached_or_minimal :: "env \<Rightarrow> collection \<Rightarrow> pyval \<Rightarrow> world \<Rightarrow> (error + nref) \<times> collection \<times> world" where
  "get_cached_or_minimal ev col i w =
     (if \<not> hashable i then (Inl TypeError, col, w)
      else case map_of (cache col) i of
        Some doc \<Rightarrow>
          (case time ev w of
             (t, w1) \<Rightarrow>
               (case verify_cache_integrity ev col (set_last_used doc t w1) of
                  (col', w2) \<Rightarrow> (Inr doc, col', w2)))
      | None \<Rightarrow>
          (case minimal ev (document_wrapper col) i w of (r, w1) \<Rightarrow> (r, col, w1)))"


text \<open>
  \<^verbatim>\<open>delete(id)\<close> (named like \<open>find_doc\<close>):
  \<^verbatim>\<open>await self.mongo_col.delete_one({"_id": id})\<close>, then
  \<^verbatim>\<open>self.cache.pop(id, None)\<close>. The second statement runs only when the first returns.
\<close>

definition delete_doc :: "env \<Rightarrow> collection \<Rightarrow> pyval \<Rightarrow> world \<Rightarrow> error option \<times> collection \<times> world" where
  "delete_doc ev col i w =
     (case delete_one ev i of
        Inl e \<Rightarrow> (Some e, col, w\<lparr>calls := calls w @ [DeleteOne i]\<rparr>)
      | Inr ack \<Rightarrow>
          if \<not> hashable i then (Some TypeError, col, w\<lparr>calls := calls w @ [DeleteOne i]\<rparr>)
          else (None, col\<lparr>cache := AList.delete i (cache col)\<rparr>,
                w\<lparr>calls := calls w @ [DeleteOne i]\<rparr>))"

section \<open>Defaults as objects\<close>

text \<open>
  Whether two documents share a container is a question of object identity, which the
  values above do not have. This section models \<^verbatim>\<open>FieldBase.default\<close>,
  \<^verbatim>\<open>Field.from_raw\<close> and the first loop of \<^verbatim>\<open>NiceDocument.minimal\<close> once more, on a
  store of container objects: a value is immutable data or the address of a container,
  and a container holds values. \<^verbatim>\<open>copy(v)\<close> of \<^verbatim>\<open>from copy import copy\<close> returns an
  immutable value as it is and, for a container, a new container with the same elements.
\<close>

datatype hval = HNone | HInt int | HStr string | HRef nat

datatype hobj = HList "hval list" | HSet "hval list" | HDict "(hval \<times> hval) list"

record store =
  cells :: "nat \<rightharpoonup> hobj"
  fresh :: nat

definition copy :: "hval \<Rightarrow> store \<Rightarrow> hval \<times> store" where
  "copy v st =
     (case v of
        HRef a \<Rightarrow>
          (case cells st a of
             None \<Rightarrow> (v, st)
           | Some ob \<Rightarrow>
               (HRef (fresh st), st\<lparr>cells := (cells st)(fresh st \<mapsto> ob), fresh := Suc (fresh st)\<rparr>))
      | _ \<Rightarrow> (v, st))"

text \<open>\<^verbatim>\<open>FieldBase.default\<close> of a field whose \<^verbatim>\<open>_default\<close> is \<open>d\<close>.\<close>

definition default_obj :: "hval \<Rightarrow> store \<Rightarrow> hval \<times> store" where
  "default_obj d st = copy d st"

text \<open>\<^verbatim>\<open>Field.from_raw(value)\<close>, with the converter \<open>fr\<close>.\<close>

definition from_raw_obj :: "hval \<Rightarrow> (hval \<Rightarrow> hval) \<Rightarrow> hval \<Rightarrow> store \<Rightarrow> hval \<times> store" where
  "from_raw_obj d fr v st = (if v = HNone then default_obj d st else (fr v, st))"

text \<open>
  The loop \<^verbatim>\<open>for name, field in self._fields.items(): setattr(self, name, field.default)\<close>
  of \<^verbatim>\<open>minimal\<close>: the attribute values of the new document, by field.
\<close>

fun minimal_obj :: "(string \<times> hval) list \<Rightarrow> store \<Rightarrow> (string \<times> hval) list \<times> store" where
  "minimal_obj [] st = ([], st)"
| "minimal_obj ((name, d) # rest) st =
     (case default_obj d st of
        (v, st1) \<Rightarrow> (case minimal_obj rest st1 of (vs, st2) \<Rightarrow> ((name, v) # vs, st2)))"

text \<open>The containers a value reaches within \<open>n\<close> levels of nesting below it.\<close>

fun refs_of :: "hval list \<Rightarrow> nat list" where
  "refs_of [] = []"
| "refs_of (HRef a # vs) = a # refs_of vs"
| "refs_of (v # vs) = refs_of vs"

fun elements :: "hobj \<Rightarrow> hval list" where
  "elements (HList vs) = vs"
| "elements (HSet vs) = vs"
| "elements (HDict kvs) = map fst kvs @ map snd kvs"

fun reach :: "nat \<Rightarrow> store \<Rightarrow> nat list \<Rightarrow> nat list" where
  "reach 0 st as = as"
| "reach (Suc n) st as =
     as @ reach n st (concat (map (\<lambda>a. case cells st a of None \<Rightarrow> [] | Some ob \<Rightarrow> refs_of (elements ob)) as))"

definition containers :: "nat \<Rightarrow> store \<Rightarrow> hval \<Rightarrow> nat set" where
  "containers n st v = set (reach n st (refs_of [v]))"

section \<open>Auxiliary notions\<close>

text \<open>
  \<open>keeps n w w'\<close>: going from \<open>w\<close> to \<open>w'\<close> left every object allocated below \<open>n\<close>, the
  call log and the clock alone. \<open>nothing_staged\<close>: a proxy holds no pending operation.
\<close>

definition keeps :: "nat \<Rightarrow> world \<Rightarrow> world \<Rightarrow> bool" where
  "keeps n w w' = (n \<le> next_oid w' \<and> calls w' = calls w \<and> ticks w' = ticks w \<and> (\<forall>i<n. objs w' i = objs w i))"


text \<open>
  \<open>clear_inner\<close> resets the pending operations of every proxy that has child proxies.
\<close>

definition no_ops :: "staged \<Rightarrow> staged" where
  "no_ops s = s\<lparr>cm_value := None, to_inc := PNone, to_add := [], to_remove := [], to_update := [],
                 to_pop := []\<rparr>"

fun clear_inner :: "command_maker \<Rightarrow> command_maker" where
  "clear_inner (CommandMaker s ns as) =
     CommandMaker (if ns = [] \<and> as = [] then s else no_ops s)
       (map (\<lambda>p. (fst p, clear_inner (snd p))) ns)
       (map (\<lambda>p. (fst p, clear_inner (snd p))) as)"


section \<open>Concrete inputs\<close>

text \<open>
  A store that holds nothing and acknowledges every write, with a clock that reads 0
  five times and 70 from then on; a store that is down; the empty world; and a cache
  with lifetime 5 that holds the documents \<open>A\<close> (last used at 70) and \<open>B\<close> (last used
  at 0).
\<close>

definition ev70 :: env where
  "ev70 = \<lparr>find_one = (\<lambda>i. Inr PNone), update_one = (\<lambda>i c u. Inr PNone),
            delete_one = (\<lambda>i. Inr PNone), clock = (\<lambda>n. if n < 5 then 0 else 70)\<rparr>"

definition ev_down :: env where
  "ev_down = \<lparr>find_one = (\<lambda>i. Inl (StoreError ''down'')),
               update_one = (\<lambda>i c u. Inl (StoreError ''down'')),
               delete_one = (\<lambda>i. Inl (StoreError ''down'')), clock = (\<lambda>n. 60)\<rparr>"

definition w0 :: world where
  "w0 = \<lparr>objs = Map.empty, next_oid = 0, calls = [], ticks = 0\<rparr>"

definition doc_at :: "nat \<Rightarrow> nref" where
  "doc_at n = NRef n NiceDocumentK None [] None"

definition col_AB :: collection where
  "col_AB = \<lparr>cache = [(PStr ''A'', doc_at 0), (PStr ''B'', doc_at 1)], document_wrapper = Cls [] [],
              cache_lifetime = Some 5, last_cache_check = 0\<rparr>"



text \<open>
  A document class with a scalar field, a list field, a map of nested documents and a
  single nested document; the document with identifier 1 and age 20 built from its
  stored record; and three scope bodies.
\<close>

definition profile_cls :: cls where
  "profile_cls = Cls [(''nick'', Field (PStr []) (\<lambda>v. v) (\<lambda>v. v) None)] []"

definition thing_cls :: cls where
  "thing_cls = Cls [(''size'', Field (PInt 0) (\<lambda>v. v) (\<lambda>v. v) None)] []"

definition person_cls :: cls where
  "person_cls = Cls [(''age'', Field (PInt 0) (\<lambda>v. v) (\<lambda>v. v) None),
                     (''tags'', FieldWithContainer ListK (PList []) (\<lambda>v. v) (\<lambda>v. v) None)]
                    [(''things'', FieldWithNestings thing_cls (PDict []) (\<lambda>v. v) (\<lambda>v. v) None),
                     (''profile'', NestingFactory profile_cls None)]"

definition w_person :: world where
  "w_person = snd (NiceDocument_init ev70 person_cls
                     (PDict [(PStr ''_id'', PInt 1), (PStr ''age'', PInt 20)]) w0)"

definition cmd_person :: command_maker where
  "cmd_person = new_cm [] None (PNesting (doc_at 0)) PNone"

definition abort_body :: "stmt list" where
  "abort_body = [Stmt [] (Assign ''age'' (PInt 21)), Stmt [] (Raise (BodyError ''boom''))]"

definition birthday_body :: "stmt list" where
  "birthday_body = [Stmt [] (Assign ''age'' (PInt 21))]"


text \<open>More scope bodies over the document above.\<close>

definition default_body :: "stmt list" where
  "default_body = [Stmt [] (Assign ''age'' (PInt 0))]"

definition clear_body :: "stmt list" where
  "clear_body = [Stmt [] (Assign ''age'' PEllipsis)]"

definition twice_body :: "stmt list" where
  "twice_body = [Stmt [] (AugAdd ''age'' (PInt 1)), Stmt [] (AugAdd ''age'' (PInt 2))]"

definition nick_body :: "stmt list" where
  "nick_body = [Stmt [Attr ''profile''] (Assign ''nick'' (PStr ''x''))]"

definition shadow_body :: "stmt list" where
  "shadow_body = Stmt [] (Assign ''profile'' (PInt 5)) # nick_body"

text \<open>
  A document whose field \<^verbatim>\<open>outer\<close> is a map of nested documents, each with a map
  \<^verbatim>\<open>inner\<close> of nested documents that have a scalar \<^verbatim>\<open>field\<close>: built from a stored
  record with one entry at the keys \<open>k1\<close> and \<open>k2\<close>, and from a record with no entry; and
  the scope body \<^verbatim>\<open>cmd.outer[k1].inner[k2].field = 7\<close>.
\<close>

definition leaf_cls :: cls where
  "leaf_cls = Cls [(''field'', Field (PInt 0) (\<lambda>v. v) (\<lambda>v. v) None)] []"

definition mid_cls :: cls where
  "mid_cls = Cls [] [(''inner'', FieldWithNestings leaf_cls (PDict []) (\<lambda>v. v) (\<lambda>v. v) None)]"

definition root_cls :: cls where
  "root_cls = Cls [] [(''outer'', FieldWithNestings mid_cls (PDict []) (\<lambda>v. v) (\<lambda>v. v) None)]"

definition nested_data :: "string \<Rightarrow> string \<Rightarrow> pyval" where
  "nested_data k1 k2 =
     PDict [(PStr ''_id'', PInt 1),
            (PStr ''outer'', PDict [(PStr k1, PDict [(PStr ''inner'',
               PDict [(PStr k2, PDict [(PStr ''field'', PInt 5)])])])])]"

definition w_nested :: "string \<Rightarrow> string \<Rightarrow> world" where
  "w_nested k1 k2 = snd (NiceDocument_init ev70 root_cls (nested_data k1 k2) w0)"

definition w_bare :: world where
  "w_bare = snd (NiceDocument_init ev70 root_cls (PDict [(PStr ''_id'', PInt 1)]) w0)"

definition leaf_body :: "string \<Rightarrow> string \<Rightarrow> stmt list" where
  "leaf_body k1 k2 =
     [Stmt [Attr ''outer'', Item (PStr k1), Attr ''inner'', Item (PStr k2)] (Assign ''field'' (PInt 7))]"

text \<open>A store where the default of a field is the list \<^verbatim>\<open>[[1]]\<close>.\<close>

definition st_nested :: store where
  "st_nested = \<lparr>cells = [0 \<mapsto> HList [HRef 1], 1 \<mapsto> HList [HInt 1]], fresh = 2\<rparr>"

section \<open>Properties of the identity cache\<close>

lemma delete_filter: "AList.delete k c = filter (\<lambda>(k', v). k' \<noteq> k) c"
  by (induction c) auto



text \<open>
  C7, as the code has it. \<^verbatim>\<open>delete(id)\<close> issues exactly one \<^verbatim>\<open>delete_one\<close> for
  \<open>id\<close>. When that call returns, whatever it acknowledges, the entry of \<open>id\<close> is gone
  from the cache and every other entry stays. When the call raises, the exception
  reaches the caller and the cache is as it was.
\<close>

theorem delete_doc_evicts_after_store_returns:
  "calls (snd (snd (delete_doc ev col i w))) = calls w @ [DeleteOne i] \<and>
   (delete_one ev i = Inr ack \<and> hashable i \<longrightarrow>
      fst (delete_doc ev col i w) = None \<and>
      cache (fst (snd (delete_doc ev col i w))) = filter (\<lambda>(k, d). k \<noteq> i) (cache col)) \<and>
   (delete_one ev i = Inl e \<longrightarrow>
      fst (delete_doc ev col i w) = Some e \<and> fst (snd (delete_doc ev col i w)) = col)"
  by (auto simp: delete_doc_def delete_filter split: sum.splits)

theorem delete_doc_evicts_witness:
  "fst (delete_doc ev70 col_AB (PStr ''A'') w0) = None \<and>
   cache (fst (snd (delete_doc ev70 col_AB (PStr ''A'') w0))) = [(PStr ''B'', doc_at 1)] \<and>
   fst (delete_doc ev_down col_AB (PStr ''A'') w0) = Some (StoreError ''down'') \<and>
   fst (snd (delete_doc ev_down col_AB (PStr ''A'') w0)) = col_AB"
  using delete_doc_evicts_after_store_returns [of ev70 col_AB "PStr ''A''" w0 PNone]
        delete_doc_evicts_after_store_returns [of ev_down col_AB "PStr ''A''" w0 _ "StoreError ''down''"]
  by (simp add: ev70_def ev_down_def col_AB_def)

text \<open>
  C7 as stated fails: with the store down, \<^verbatim>\<open>delete("A")\<close> raises and \<open>A\<close> is still
  cached.
\<close>

theorem delete_doc_failure_keeps_entry:
  "fst (delete_doc ev_down col_AB (PStr ''A'') w0) = Some (StoreError ''down'') \<and>
   map_of (cache (fst (snd (delete_doc ev_down col_AB (PStr ''A'') w0)))) (PStr ''A'') = Some (doc_at 0)"
  by (simp add: delete_doc_def ev_down_def col_AB_def)




section \<open>What a scope leaves alone\<close>

lemmas eval_defs = NiceDocument_init_def alloc_def setattr_node_def getattr_node_def set_last_used_def
  time_def copy_val_def str_or_def cls_of_def
  person_cls_def thing_cls_def profile_cls_def ev70_def ev_down_def w0_def doc_at_def

lemmas cm_defs = command_maker_def new_cm_def scope_def aexit_def getattr_cm_def setattr_cm_def
  put_attr_def put_nesting_def upd_slots_def slot_names_def method_names_def of_result_def
  compile_leaf_def find_field_def then_stage_def stage_set_def stage_inc_def stage_add_def
  stage_remove_def stage_update_def stage_pop_def build_command_def section_of_def send_def
  empty_acc_def mongo_name_def iadd_def extend_at_def Let_def

lemma calls_setattr_node: "calls (setattr_node r n v w) = calls w"
  by (simp add: setattr_node_def split: option.splits)

lemma calls_then_stage:
  assumes "calls (snd (snd r)) = c" and "\<And>a w. calls w = c \<Longrightarrow> calls (snd (snd (g a w))) = c"
  shows "calls (snd (snd (then_stage r g))) = c"
  using assms by (cases r) (auto simp: then_stage_def split: option.splits)

lemma calls_stage_set: "calls (snd (snd (stage_set f route ow name v a w))) = calls w"
  by (simp add: stage_set_def calls_setattr_node split: option.splits sum.splits)

lemma calls_stage_inc: "calls (snd (snd (stage_inc f route ow name v a w))) = calls w"
  by (simp add: stage_inc_def calls_setattr_node split: option.splits sum.splits)

lemma calls_stage_add: "calls (snd (snd (stage_add f route ow name v a w))) = calls w"
  by (simp add: stage_add_def calls_setattr_node Let_def split: option.splits sum.splits pyval.splits prod.splits)

lemma calls_stage_remove: "calls (snd (snd (stage_remove f route ow name v a w))) = calls w"
  by (simp add: stage_remove_def calls_setattr_node split: option.splits sum.splits prod.splits)

lemma calls_stage_update: "calls (snd (snd (stage_update f route ow name v a w))) = calls w"
  by (simp add: stage_update_def calls_setattr_node split: option.splits sum.splits prod.splits field.splits)

lemma calls_stage_pop: "calls (snd (snd (stage_pop f route ow name v a w))) = calls w"
  by (simp add: stage_pop_def calls_setattr_node split: option.splits sum.splits prod.splits field.splits)

lemma calls_compile_leaf: "calls (snd (snd (compile_leaf magic a w))) = calls w"
  unfolding compile_leaf_def Let_def
  by (auto split: pyval.splits option.splits sum.splits
      intro!: calls_then_stage simp: calls_stage_set calls_stage_inc calls_stage_add
        calls_stage_remove calls_stage_update calls_stage_pop)

lemma calls_compile_leaves: "calls (snd (snd (compile_leaves ms a w))) = calls w"
proof (induction ms arbitrary: a w)
  case Nil then show ?case by simp
next
  case (Cons m ms)
  show ?case
  proof (cases "compile_leaf m a w")
    case (fields r a' w')
    with calls_compile_leaf [of m a w] have "calls w' = calls w" by simp
    with fields Cons show ?thesis by (cases r) auto
  qed
qed

lemma calls_inject_keys: "calls (inject_keys ow name ns w) = calls w"
  by (induction ow name ns w rule: inject_keys.induct)
     (auto simp: calls_setattr_node split: sum.splits pyval.splits)

lemma calls_fold:
  assumes "\<And>x w. x \<in> set xs \<Longrightarrow> calls (g x w) = calls w"
  shows "calls (fold g xs w) = calls w"
  using assms by (induction xs arbitrary: w) auto

lemma calls_inject: "calls (inject_nesting_branches cm w) = calls w"
proof (induction cm w rule: inject_nesting_branches.induct)
  case (1 s ns as w)
  show ?case
    apply (simp only: inject_nesting_branches.simps)
    apply (subst calls_fold)
    using 1 apply blast
    apply (simp add: calls_inject_keys split: pyval.splits)
    done
qed

lemma section_of_keys:
  "section_of title opr d = Inr c \<Longrightarrow> (d = [] \<and> c = []) \<or> (d \<noteq> [] \<and> (\<exists>x. c = [(title, x)]))"
  by (auto simp: section_of_def split: if_splits sum.splits)

lemma build_command_upsert:
  assumes "build_command a = Inr (c, u)"
  shows "u = (''$set'' \<in> fst ` set c \<or> ''$addToSet'' \<in> fst ` set c)"
    and "u = (setters a \<noteq> [] \<or> adders a \<noteq> [])"
    and "(''$unset'' \<in> fst ` set c) = (unsetters a \<noteq> [])"
    and "(''$pull'' \<in> fst ` set c) = (removers a \<noteq> [])"
  using assms
  by (auto simp: build_command_def split: sum.splits if_splits dest!: section_of_keys)

lemma keeps_refl: "n \<le> next_oid w \<Longrightarrow> keeps n w w"
  by (simp add: keeps_def)

lemma keeps_trans: "keeps n w w1 \<Longrightarrow> keeps n w1 w2 \<Longrightarrow> keeps n w w2"
  by (simp add: keeps_def)

lemma keeps_next: "keeps n w w' \<Longrightarrow> n \<le> next_oid w'"
  by (simp add: keeps_def)

lemma keeps_setattr: "n \<le> oid r \<Longrightarrow> n \<le> next_oid w \<Longrightarrow> keeps n w (setattr_node r x v w)"
  by (auto simp: keeps_def setattr_node_def split: option.splits)

lemma next_oid_setattr: "next_oid (setattr_node r x v w) = next_oid w"
  by (simp add: setattr_node_def split: option.splits)

lemma keeps_setattr_trans:
  "keeps n (setattr_node self x v w1) w2 \<Longrightarrow> n \<le> oid self \<Longrightarrow> keeps n w w1 \<Longrightarrow> keeps n w w2"
  using keeps_setattr [of n self w1 x v] by (auto simp: keeps_def)

lemma keeps_alloc:
  "n \<le> next_oid w \<Longrightarrow> alloc k c an p al w = (self, w1) \<Longrightarrow> keeps n w w1 \<and> n \<le> oid self"
  by (auto simp: keeps_def alloc_def)

lemma keeps_init_fields:
  "n \<le> oid self \<Longrightarrow> n \<le> next_oid w \<Longrightarrow> keeps n w (snd (init_fields fs data self w))"
proof (induction fs data self w rule: init_fields.induct)
  case (1 data self w)
  then show ?case by (simp add: keeps_refl)
next
  case (2 name f rest data self w)
  show ?case
  proof (cases "data_get data (str_or (real_name f) name)")
    case (Inl e)
    with 2 show ?thesis by (simp add: keeps_refl)
  next
    case (Inr raw)
    show ?thesis
    proof (cases "from_raw f raw")
      case (Inl e)
      with Inr 2 show ?thesis by (simp add: keeps_refl)
    next
      case r: (Inr v)
      have k1: "keeps n w (setattr_node self name v w)" using 2 by (simp add: keeps_setattr)
      from 2(1)[OF Inr r 2(2) keeps_next[OF k1]] k1 Inr r
      show ?thesis by (auto intro: keeps_trans)
    qed
  qed
qed

lemma keeps_init:
  "n \<le> next_oid w \<Longrightarrow> keeps n w (snd (init_node k c an data p al w))"
  "n \<le> oid self \<Longrightarrow> n \<le> next_oid wb \<Longrightarrow> keeps n wb (snd (init_nestings fs dd self wb))"
  "n \<le> next_oid wc \<Longrightarrow> keeps n wc (snd (make_children cc fk pre parent kvs acc wc))"
proof (induction k c an data p al w and fs dd self wb and cc fk pre parent kvs acc wc
    rule: init_node_init_nestings_make_children.induct)
  case (1 k c attr_name data parent al w)
  obtain self w1 where a: "alloc k c attr_name parent al w = (self, w1)" by force
  define d where "d = (if data = PNone then PDict [] else data)"
  obtain r w2 where f: "init_fields (cls_fields c) d self w1 = (r, w2)" by force
  from keeps_alloc[OF 1(2) a] have k1: "keeps n w w1" and s: "n \<le> oid self" by auto
  from keeps_init_fields[OF s keeps_next[OF k1], of "cls_fields c" d] f
  have k2: "keeps n w1 w2" by simp
  show ?case
  proof (cases r)
    case (Some e)
    with a f k1 k2 show ?thesis by (auto simp: d_def intro: keeps_trans)
  next
    case None
    from 1(1)[OF a[symmetric] d_def f[symmetric] None s keeps_next[OF k2]]
    have "keeps n w2 (snd (init_nestings (nice_nestings c) d self w2))" .
    with a f k1 k2 None show ?thesis
      by (auto simp: d_def split: prod.splits option.splits intro: keeps_trans)
  qed
next
  case (2 data self w)
  then show ?case by (simp add: keeps_refl)
next
  case (3 name f rest data self w)
  note s = "3.prems"(1) and nw = "3.prems"(2)
  have step: "keeps n w w2" 
    if "keeps n w w1" and "n \<le> next_oid (setattr_node self name v w1) \<Longrightarrow> keeps n (setattr_node self name v w1) w2"
    for w1 v w2
  proof -
    from that(1) have "n \<le> next_oid w1" by (rule keeps_next)
    then have "keeps n (setattr_node self name v w1) w2" using that(2) by (simp add: next_oid_setattr)
    then show ?thesis using s that(1) by (rule keeps_setattr_trans)
  qed
  show ?case
  proof (cases "data_get data (str_or (real_name f) name)")
    case (Inl e)
    then show ?thesis using nw by (simp add: keeps_refl)
  next
    case (Inr raw)
    show ?thesis
    proof (cases f)
      case (NestingFactory c rn)
      obtain r w1 where i: "init_node NiceNestingK c name raw (Some self) rn w = (r, w1)" by force
      from "3.IH"(4)[OF Inr NestingFactory nw] i have k1: "keeps n w w1" by simp
      show ?thesis
      proof (cases r)
        case (Inl e)
        with Inr NestingFactory i k1 show ?thesis by (simp del: init_node.simps)
      next
        case c: (Inr child)
        have "keeps n w (snd (init_nestings rest data self (setattr_node self name (PNesting child) w1)))"
          by (rule step[OF k1 "3.IH"(5)[OF Inr NestingFactory i[symmetric] c s]])
        with Inr NestingFactory i c show ?thesis by (simp del: init_node.simps)
      qed
    next
      case (FieldWithNestings c d fk tk rn)
      show ?thesis
      proof (cases "raw = PNone")
        case True
        have "keeps n w (snd (init_nestings rest data self (setattr_node self name (copy_val d) w)))"
          by (rule step[OF keeps_refl[OF nw] "3.IH"(1)[OF Inr FieldWithNestings True s]])
        with Inr FieldWithNestings True show ?thesis by (simp del: init_node.simps)
      next
        case False
        show ?thesis
        proof (cases raw)
          case (PDict kvs)
          obtain r w1 where m: "make_children c fk (str_or rn name) self kvs [] w = (r, w1)" by force
          from "3.IH"(2)[OF Inr FieldWithNestings False PDict nw] m have k1: "keeps n w w1" by simp
          show ?thesis
          proof (cases r)
            case (Inl e)
            with Inr FieldWithNestings PDict m k1 show ?thesis by (simp del: init_node.simps)
          next
            case c: (Inr children)
            have "keeps n w (snd (init_nestings rest data self (setattr_node self name (PDict children) w1)))"
              by (rule step[OF k1 "3.IH"(3)[OF Inr FieldWithNestings False PDict m[symmetric] c s]])
            with Inr FieldWithNestings PDict m c show ?thesis by (simp del: init_node.simps)
          qed
        qed (use Inr FieldWithNestings False nw in \<open>simp_all add: keeps_refl\<close>)
      qed
    qed (use Inr nw in \<open>simp_all add: keeps_refl\<close>)
  qed
next
  case (4 c fk prefix parent acc w)
  then show ?case by (simp add: keeps_refl)
next
  case (5 c fk prefix parent k v kvs acc w)
  note nw = "5.prems"
  obtain r w1 where i: "init_node NiceNestingK c [] v (Some parent) (Some (prefix @ ''.'' @ py_str k)) w = (r, w1)"
    by force
  from "5.IH"(1)[OF refl nw] i have k1: "keeps n w w1" by simp
  show ?case
  proof (cases r)
    case (Inl e)
    with i k1 show ?thesis by (simp del: init_node.simps)
  next
    case c: (Inr child)
    show ?thesis
    proof (cases "hashable (fk k)")
      case True
      then have h: "\<not> \<not> hashable (fk k)" by simp
      have "keeps n w1 (snd (make_children c fk prefix parent kvs (AList.update (fk k) (PNesting child) acc) w1))"
        by (rule "5.IH"(2)[OF refl i[symmetric] c h keeps_next[OF k1]])
      with k1 have "keeps n w (snd (make_children c fk prefix parent kvs (AList.update (fk k) (PNesting child) acc) w1))"
        by (rule keeps_trans)
      with i c True show ?thesis by (simp del: init_node.simps)
    next
      case False
      with i c k1 show ?thesis by (simp del: init_node.simps)
    qed
  qed
qed

lemma keeps_init_node:
  assumes "n \<le> next_oid w" and "init_node k c an d p al w = (r, w1)"
  shows "keeps n w w1"
  using keeps_init(1)[OF assms(1), of k c an d p al] assms(2) by simp

lemma keeps_getitem: "n \<le> next_oid w \<Longrightarrow> keeps n w (snd (getitem_cm cm key w))"
  by (auto simp del: init_node.simps simp: getitem_cm_def keeps_refl Let_def
      split: pyval.splits option.splits field.splits sum.splits prod.splits if_splits
      elim: keeps_init_node)

lemma world_act: "snd (snd (act a cm w)) = w"
  by (cases a) (auto simp: of_result_def split: sum.splits)

lemma keeps_navigate: "n \<le> next_oid w \<Longrightarrow> keeps n w (snd (snd (navigate ps a cm w)))"
proof (induction ps arbitrary: cm w)
  case Nil
  then show ?case by (simp add: world_act keeps_refl)
next
  case (Cons p ps)
  show ?case
  proof (cases p)
    case (Attr name)
    show ?thesis
    proof (cases "getattr_cm cm name w")
      case (Inl e)
      with Attr Cons.prems show ?thesis by (simp add: keeps_refl)
    next
      case (Inr pr)
      obtain sub cm' where pr: "pr = (sub, cm')" by force
      from Cons.IH[OF Cons.prems, of sub] Attr Inr pr show ?thesis
        by (auto split: prod.splits)
    qed
  next
    case (Item key)
    obtain r w1 where g: "getitem_cm cm key w = (r, w1)" by force
    with keeps_getitem[OF Cons.prems, of cm key] have k1: "keeps n w w1" by simp
    show ?thesis
    proof (cases r)
      case (Inl e)
      with Item g k1 show ?thesis by simp
    next
      case (Inr pr)
      obtain sub cm' where pr: "pr = (sub, cm')" by force
      from Cons.IH[OF keeps_next[OF k1], of sub] k1
      have "keeps n w (snd (snd (navigate ps a sub w1)))" by (rule keeps_trans[rotated])
      with Item g Inr pr show ?thesis by (auto split: prod.splits)
    qed
  qed
qed

lemma keeps_exec_body: "n \<le> next_oid w \<Longrightarrow> keeps n w (snd (snd (exec_body body cm w)))"
proof (induction body arbitrary: cm w)
  case Nil
  then show ?case by (simp add: keeps_refl)
next
  case (Cons st sts)
  obtain ps a where st: "st = Stmt ps a" by (cases st)
  obtain r cm' w1 where n: "navigate ps a cm w = (r, cm', w1)" by (cases "navigate ps a cm w") auto
  with keeps_navigate[OF Cons.prems, of ps a cm] have k1: "keeps n w w1" by simp
  show ?case
  proof (cases r)
    case None
    from Cons.IH[OF keeps_next[OF k1], of cm'] k1
    have "keeps n w (snd (snd (exec_body sts cm' w1)))" by (rule keeps_trans[rotated])
    with st n None show ?thesis by simp
  next
    case (Some e)
    with st n k1 show ?thesis by simp
  qed
qed


lemma send_cases:
  assumes "send ev self c u w = (r, w')"
  shows "calls w' = calls w \<or>
         (\<exists>i. c \<noteq> [] \<and> w' = w\<lparr>calls := calls w @ [UpdateOne i c u]\<rparr> \<and>
              r = (case update_one ev i c u of Inl e \<Rightarrow> Some e | Inr a \<Rightarrow> None) \<and>
              (\<forall>ev'. send ev' self c u w =
                  ((case update_one ev' i c u of Inl e \<Rightarrow> Some e | Inr a \<Rightarrow> None), w')))"
proof (cases "c \<noteq> [] \<and> underlying (slots self) \<noteq> PNone")
  case False
  with assms show ?thesis by (auto simp: send_def split: if_splits)
next
  case True
  show ?thesis
  proof (cases "py_document (underlying (slots self))")
    case (Inl x)
    with assms True show ?thesis by (auto simp: send_def)
  next
    case (Inr doc)
    show ?thesis
    proof (cases "getattr_node doc ''id'' w")
      case (Inl x)
      with assms True Inr show ?thesis by (auto simp: send_def)
    next
      case i: (Inr i)
      have "send ev' self c u w =
          ((case update_one ev' i c u of Inl e \<Rightarrow> Some e | Inr a \<Rightarrow> None),
           w\<lparr>calls := calls w @ [UpdateOne i c u]\<rparr>)" for ev'
        using True Inr i by (simp add: send_def)
      with assms True show ?thesis by auto
    qed
  qed
qed

lemma aexit_cases:
  assumes "aexit ev None self w = (r, w')"
  shows "calls w' = calls w \<or>
         (\<exists>i c u. c \<noteq> [] \<and> calls w' = calls w @ [UpdateOne i c u] \<and>
              u = (''$set'' \<in> fst ` set c \<or> ''$addToSet'' \<in> fst ` set c) \<and>
              r = (case update_one ev i c u of Inl e \<Rightarrow> Some e | Inr a \<Rightarrow> None) \<and>
              (\<forall>ev'. aexit ev' None self w =
                  ((case update_one ev' i c u of Inl e \<Rightarrow> Some e | Inr a \<Rightarrow> None), w')))"
proof -
  obtain r1 a w1 where c: "compile_leaves (iter_leaves self) empty_acc w = (r1, a, w1)"
    by (cases "compile_leaves (iter_leaves self) empty_acc w") auto
  from calls_compile_leaves[of "iter_leaves self" empty_acc w] c have c1: "calls w1 = calls w" by simp
  let ?w2 = "inject_nesting_branches self w1"
  have c2: "calls ?w2 = calls w" by (simp add: calls_inject c1)
  show ?thesis
  proof (cases r1)
    case (Some e)
    with assms c c1 show ?thesis by (auto simp: aexit_def)
  next
    case None
    show ?thesis
    proof (cases "build_command a")
      case (Inl e)
      with assms c None c2 show ?thesis by (auto simp: aexit_def)
    next
      case (Inr cu)
      obtain cmd u where cu: "cu = (cmd, u)" by force
      have ae: "aexit ev' None self w = send ev' self cmd u ?w2" for ev'
        by (simp add: aexit_def c None Inr cu)
      from assms ae have s: "send ev self cmd u ?w2 = (r, w')" by simp
      from build_command_upsert(1)[OF Inr[unfolded cu]]
      have u: "u = (''$set'' \<in> fst ` set cmd \<or> ''$addToSet'' \<in> fst ` set cmd)" .
      from send_cases[OF s] show ?thesis
      proof
        assume "calls w' = calls ?w2"
        with c2 show ?thesis by simp
      next
        assume "\<exists>i. cmd \<noteq> [] \<and> w' = ?w2\<lparr>calls := calls ?w2 @ [UpdateOne i cmd u]\<rparr> \<and>
              r = (case update_one ev i cmd u of Inl e \<Rightarrow> Some e | Inr a \<Rightarrow> None) \<and>
              (\<forall>ev'. send ev' self cmd u ?w2 =
                  ((case update_one ev' i cmd u of Inl e \<Rightarrow> Some e | Inr a \<Rightarrow> None), w'))"
        then obtain i where i: "cmd \<noteq> []" "w' = ?w2\<lparr>calls := calls ?w2 @ [UpdateOne i cmd u]\<rparr>"
          "r = (case update_one ev i cmd u of Inl e \<Rightarrow> Some e | Inr a \<Rightarrow> None)"
          "\<forall>ev'. send ev' self cmd u ?w2 =
                  ((case update_one ev' i cmd u of Inl e \<Rightarrow> Some e | Inr a \<Rightarrow> None), w')"
          by blast
        have "calls w' = calls w @ [UpdateOne i cmd u]" using i(2) c2 by simp
        with i u ae show ?thesis by auto
      qed
    qed
  qed
qed




section \<open>Properties of the change compiler\<close>

text \<open>
  C3. When the body of a scope raises \<open>e\<close>, the scope ends with \<open>e\<close>, the call log of
  the store is as before, and every object that existed when the scope began has the
  attributes it had; \<^verbatim>\<open>__aexit__\<close> with an exception returns at once, compiling nothing.
\<close>

theorem scope_abort:
  "command_maker r = Inr cmd \<and> fst (exec_body body cmd w) = Some e \<longrightarrow>
     fst (scope ev r body w) = Some e \<and>
     calls (snd (scope ev r body w)) = calls w \<and>
     (\<forall>i<next_oid w. objs (snd (scope ev r body w)) i = objs w i) \<and>
     aexit ev (Some e) cm w' = (None, w')"
proof (intro impI, elim conjE)
  assume c: "command_maker r = Inr cmd" and b: "fst (exec_body body cmd w) = Some e"
  obtain cm' w1 where x: "exec_body body cmd w = (Some e, cm', w1)"
    using b by (cases "exec_body body cmd w") auto
  have k: "keeps (next_oid w) w w1"
    using keeps_exec_body[of "next_oid w" w body cmd] x by simp
  have s: "scope ev r body w = (Some e, w1)"
    by (simp add: scope_def c x aexit_def)
  show "fst (scope ev r body w) = Some e \<and>
     calls (snd (scope ev r body w)) = calls w \<and>
     (\<forall>i<next_oid w. objs (snd (scope ev r body w)) i = objs w i) \<and>
     aexit ev (Some e) cm w' = (None, w')"
    using k by (simp add: s keeps_def aexit_def)
qed

theorem scope_abort_witness:
  "fst (scope ev70 (doc_at 0) abort_body w_person) = Some (BodyError ''boom'') \<and>
   calls (snd (scope ev70 (doc_at 0) abort_body w_person)) = [] \<and>
   objs (snd (scope ev70 (doc_at 0) abort_body w_person)) 0 = objs w_person 0"
proof -
  have c: "command_maker (doc_at 0) = Inr cmd_person"
    by (simp add: cm_defs doc_at_def cmd_person_def)
  have b: "fst (exec_body abort_body cmd_person w_person) = Some (BodyError ''boom'')"
    by (simp add: abort_body_def cmd_person_def w_person_def eval_defs cm_defs)
  have n: "0 < next_oid w_person" "calls w_person = []"
    by (simp_all add: w_person_def eval_defs)
  show ?thesis
    using scope_abort [of "doc_at 0" cmd_person abort_body w_person "BodyError ''boom''" ev70] c b n
    by simp
qed




text \<open>
  C1, as the code has it. When the \<^verbatim>\<open>update_one\<close> call of a scope raises \<open>e\<close>, the
  scope ends with \<open>e\<close>, and the world it leaves is the one the same scope leaves when the
  store acknowledges the call: the staged operations are applied to the live graph
  before the call is made.
\<close>

theorem store_failure_after_graph_update:
  "scope ev r body w = (res, w') \<and> calls w' = calls w @ [UpdateOne i c u] \<and>
   update_one ev i c u = Inl e \<longrightarrow>
     res = Some e \<and> scope (ev\<lparr>update_one := \<lambda>i c u. Inr ack\<rparr>) r body w = (None, w')"
proof (intro impI, elim conjE)
  assume s: "scope ev r body w = (res, w')" and cl: "calls w' = calls w @ [UpdateOne i c u]"
    and f: "update_one ev i c u = Inl e"
  let ?ev = "ev\<lparr>update_one := \<lambda>i c u. Inr ack\<rparr>"
  show "res = Some e \<and> scope ?ev r body w = (None, w')"
  proof (cases "command_maker r")
    case (Inl x)
    with s cl show ?thesis by (auto simp: scope_def)
  next
    case (Inr cmd)
    obtain exc cm' w1 where x: "exec_body body cmd w = (exc, cm', w1)"
      by (cases "exec_body body cmd w") auto
    from keeps_exec_body[of "next_oid w" w body cmd] x have c1: "calls w1 = calls w"
      by (simp add: keeps_def)
    show ?thesis
    proof (cases exc)
      case (Some x)
      with s cl Inr x c1 show ?thesis by (auto simp: scope_def aexit_def)
    next
      case None
      obtain r2 w2 where a: "aexit ev None cm' w1 = (r2, w2)" by force
      from s Inr x None a have w2: "w' = w2" and res: "res = r2"
        by (auto simp: scope_def split: option.splits)
      from aexit_cases[OF a] cl c1 w2
      obtain i' c' u' where k: "calls w2 = calls w1 @ [UpdateOne i' c' u']"
        "r2 = (case update_one ev i' c' u' of Inl e \<Rightarrow> Some e | Inr a \<Rightarrow> None)"
        "\<forall>ev'. aexit ev' None cm' w1 =
                  ((case update_one ev' i' c' u' of Inl e \<Rightarrow> Some e | Inr a \<Rightarrow> None), w2)"
        by auto
      from k(1) cl c1 w2 have "i' = i" "c' = c" "u' = u" by auto
      with k f res have "res = Some e" by simp
      moreover from k(3) have "aexit ?ev None cm' w1 = (None, w2)" by simp
      then have "scope ?ev r body w = (None, w')"
        by (simp add: scope_def Inr x None w2)
      ultimately show ?thesis by simp
    qed
  qed
qed

theorem store_failure_witness:
  "fst (scope ev_down (doc_at 0) birthday_body w_person) = Some (StoreError ''down'') \<and>
   scope (ev_down\<lparr>update_one := \<lambda>i c u. Inr PNone\<rparr>) (doc_at 0) birthday_body w_person =
     (None, snd (scope ev_down (doc_at 0) birthday_body w_person))"
proof -
  have s: "scope ev_down (doc_at 0) birthday_body w_person =
      (Some (StoreError ''down''), snd (scope ev_down (doc_at 0) birthday_body w_person))"
    by (simp add: birthday_body_def w_person_def eval_defs cm_defs)
  have c: "calls (snd (scope ev_down (doc_at 0) birthday_body w_person)) =
      calls w_person @ [UpdateOne (PInt 1) [(''$set'', [(''age'', PInt 21)])] True]"
    by (simp add: birthday_body_def w_person_def eval_defs cm_defs)
  have u: "update_one ev_down (PInt 1) [(''$set'', [(''age'', PInt 21)])] True = Inl (StoreError ''down'')"
    by (simp add: ev_down_def)
  have f: "fst (scope ev_down (doc_at 0) birthday_body w_person) = Some (StoreError ''down'')"
    by (simp add: birthday_body_def w_person_def eval_defs cm_defs)
  have "scope (ev_down\<lparr>update_one := \<lambda>i c u. Inr PNone\<rparr>) (doc_at 0) birthday_body w_person =
     (None, snd (scope ev_down (doc_at 0) birthday_body w_person))"
    using store_failure_after_graph_update [of ev_down "doc_at 0" birthday_body w_person
        "Some (StoreError ''down'')" "snd (scope ev_down (doc_at 0) birthday_body w_person)"
        "PInt 1" "[(''$set'', [(''age'', PInt 21)])]" True "StoreError ''down''" PNone] s c u
    by blast
  with f show ?thesis by (rule conjI)
qed

text \<open>
  C1 as stated fails: with the store down, a scope that assigns 21 to \<^verbatim>\<open>age\<close> ends with
  the store's exception, and \<^verbatim>\<open>age\<close>, 20 before the scope, is 21 after it.
\<close>

theorem store_failure_leaves_graph_changed:
  "fst (scope ev_down (doc_at 0) birthday_body w_person) = Some (StoreError ''down'') \<and>
   getattr_node (doc_at 0) ''age'' w_person = Inr (PInt 20) \<and>
   getattr_node (doc_at 0) ''age'' (snd (scope ev_down (doc_at 0) birthday_body w_person)) = Inr (PInt 21)"
  by (simp add: birthday_body_def w_person_def eval_defs cm_defs)

lemma getattr_setattr_other:
  "n \<noteq> m \<Longrightarrow> getattr_node d n (setattr_node r m v w) = getattr_node d n w"
  by (auto simp: getattr_node_def setattr_node_def split: option.splits)

lemma getattr_setattr_same:
  "objs w (oid r) = Some ob \<Longrightarrow> getattr_node r m (setattr_node r m v w) = Inr v"
  by (auto simp: getattr_node_def setattr_node_def split: option.splits)

lemma getattr_calls_upd: "getattr_node r n (w\<lparr>calls := c\<rparr>) = getattr_node r n w"
  by (simp add: getattr_node_def)

lemma scope_result:
  "(case x of (Some e, w2) \<Rightarrow> (Some e, w2) | (None, w2) \<Rightarrow> (None :: error option, w2 :: world)) = x"
  by (cases x) (auto split: option.splits)

lemma augadd_twice:
  "exec_body [Stmt [] (AugAdd name v1), Stmt [] (AugAdd name v2)] x w =
   exec_body [Stmt [] (AugAdd name v2)] x w"
proof (cases "getattr_cm x name w")
  case (Inl e)
  then show ?thesis by simp
next
  case (Inr pr)
  obtain sub cm' where pr: "pr = (sub, cm')" by force
  have m: "map_of (pseudo_attrs cm') name = Some sub \<and>
           cm' = CommandMaker (slots x) (pseudo_nestings x) (pseudo_attrs cm')"
    using Inr pr
    by (auto simp: getattr_cm_def put_attr_def update_conv' Let_def split: if_splits option.splits sum.splits
        intro: command_maker.expand)
  have n: "name \<notin> set (slot_names @ method_names)"
    using Inr by (auto simp: getattr_cm_def split: if_splits)
  have g: "getattr_cm (put_attr name (iadd sub v1) cm') name w =
      Inr (iadd sub v1, put_attr name (iadd sub v1) cm')"
    using n by (simp add: getattr_cm_def put_attr_def update_conv')
  have i: "iadd (iadd sub v1) v2 = iadd sub v2"
    by (simp add: iadd_def upd_slots_def)
  have p: "put_attr name (iadd sub v2) (put_attr name (iadd sub v1) cm') = put_attr name (iadd sub v2) cm'"
    by (simp add: put_attr_def)
  show ?thesis
    by (simp add: Inr pr g i p)
qed

lemma clear_inner_shape:
  "underlying (slots (clear_inner t)) = underlying (slots t)"
  "underlying_owner (slots (clear_inner t)) = underlying_owner (slots t)"
  "cm_name (slots (clear_inner t)) = cm_name (slots t)"
  "(pseudo_attrs (clear_inner t) = []) = (pseudo_attrs t = [])"
  "(pseudo_nestings (clear_inner t) = []) = (pseudo_nestings t = [])"
  by (cases t; simp add: no_ops_def)+

lemma clear_inner_leaf: "pseudo_attrs t = [] \<Longrightarrow> pseudo_nestings t = [] \<Longrightarrow> clear_inner t = t"
  by (cases t) simp

lemma iter_leaves_clear_inner: "iter_leaves (clear_inner t) = iter_leaves t"
proof (induction t)
  case (CommandMaker s ns as)
  have g: "(if pseudo_attrs (clear_inner m) \<noteq> [] then iter_leaves (clear_inner m)
            else if pseudo_nestings (clear_inner m) \<noteq> [] then iter_leaves (clear_inner m)
            else [clear_inner m]) =
           (if pseudo_attrs m \<noteq> [] then iter_leaves m
            else if pseudo_nestings m \<noteq> [] then iter_leaves m else [m])"
    if "m \<in> snd ` set ns \<union> snd ` set as" for m
  proof -
    from that CommandMaker have "iter_leaves (clear_inner m) = iter_leaves m" by auto
    then show ?thesis by (simp add: clear_inner_shape clear_inner_leaf)
  qed
  show ?case
    by (simp add: comp_def g cong: map_cong)
qed


lemma inject_keys_clear_inner:
  "inject_keys ow name (map (\<lambda>p. (fst p, clear_inner (snd p))) ns) w = inject_keys ow name ns w"
proof (induction ns arbitrary: w)
  case Nil
  show ?case by simp
next
  case (Cons p ns)
  obtain key fake where p: "p = (key, fake)" by force
  show ?case
    by (simp add: p Cons clear_inner_shape cong: if_cong sum.case_cong pyval.case_cong)
qed

lemma fold_cong_all:
  assumes "\<And>x w. x \<in> set xs \<Longrightarrow> g (h x) w = g (k x) w"
  shows "fold g (map h xs) w = fold g (map k xs) w"
  using assms by (induction xs arbitrary: w) simp_all

lemma no_ops_shape:
  "underlying_owner (no_ops s) = underlying_owner s" "cm_name (no_ops s) = cm_name s"
  by (simp_all add: no_ops_def)

lemma inject_clear_inner: "inject_nesting_branches (clear_inner t) w = inject_nesting_branches t w"
proof (induction t arbitrary: w)
  case (CommandMaker s ns as)
  have f1: "fold inject_nesting_branches (map (\<lambda>x. clear_inner (snd x)) as) w' =
        fold inject_nesting_branches (map snd as) w'" for w'
    by (rule fold_cong_all) (use CommandMaker(2) in \<open>auto simp: snds.simps\<close>)
  have f2: "fold inject_nesting_branches (map (\<lambda>x. clear_inner (snd x)) ns) w' =
        fold inject_nesting_branches (map snd ns) w'" for w'
    by (rule fold_cong_all) (use CommandMaker(1) in \<open>auto simp: snds.simps\<close>)
  show ?case
    by (simp add: comp_def f1 f2 no_ops_shape inject_keys_clear_inner cong: pyval.case_cong)
qed

lemma send_clear_inner: "send ev (clear_inner self) c u w = send ev self c u w"
  by (simp add: send_def clear_inner_shape)


text \<open>
  C2, as the code has it. In a scope over a node with a scalar field \<open>name\<close>, assigning
  a value equal to the field's default sends a \<^verbatim>\<open>$set\<close> section that maps the field's
  dotted path to \<^verbatim>\<open>None\<close>, with upsert, and writes the value to the attribute;
  assigning \<^verbatim>\<open>...\<close> sends an \<^verbatim>\<open>$unset\<close> section with the path, without upsert, and
  writes a copy of the default to the attribute.
\<close>

theorem default_write_vs_clear:
  "route_prefix r = Inr prefix \<and> document r = Inr doc \<and> objs w (oid r) = Some ob \<and>
   map_of (cls_fields (ocls ob)) name = Some (Field d fr tr rn) \<and> oattrs ob name = Some old \<and>
   getattr_node doc ''id'' w = Inr i \<and> name \<notin> set slot_names \<and> name \<noteq> ''id'' \<and>
   py_eq v d \<and> v \<noteq> PEllipsis \<longrightarrow>
     snd (scope ev r [Stmt [] (Assign name v)] w) =
       (setattr_node r name v w)
         \<lparr>calls := calls w @ [UpdateOne i [(''$set'', [(prefix @ str_or rn name, PNone)])] True]\<rparr> \<and>
     snd (scope ev r [Stmt [] (Assign name PEllipsis)] w) =
       (setattr_node r name (default (Field d fr tr rn)) w)
         \<lparr>calls := calls w @ [UpdateOne i [(''$unset'', [(prefix @ str_or rn name, PStr [])])] False]\<rparr>"
proof (intro impI, elim conjE)
  assume a: "route_prefix r = Inr prefix" "document r = Inr doc" "objs w (oid r) = Some ob"
    "map_of (cls_fields (ocls ob)) name = Some (Field d fr tr rn)" "oattrs ob name = Some old"
    "getattr_node doc ''id'' w = Inr i" "name \<notin> set slot_names" "name \<noteq> ''id''"
    "py_eq v d" "v \<noteq> PEllipsis"
  have g: "getattr_node r name w = Inr old" using a by (simp add: getattr_node_def)
  have c: "cls_of r w = ocls ob" using a by (simp add: cls_of_def)
  have i: "getattr_node doc ''id'' (setattr_node r name x w) = Inr i" for x
    using a by (simp add: getattr_setattr_other)
  have k: "calls (setattr_node r name x w) = calls w" for x
    by (simp add: setattr_node_def split: option.splits)
  show "snd (scope ev r [Stmt [] (Assign name v)] w) =
       (setattr_node r name v w)
         \<lparr>calls := calls w @ [UpdateOne i [(''$set'', [(prefix @ str_or rn name, PNone)])] True]\<rparr> \<and>
     snd (scope ev r [Stmt [] (Assign name PEllipsis)] w) =
       (setattr_node r name (default (Field d fr tr rn)) w)
         \<lparr>calls := calls w @ [UpdateOne i [(''$unset'', [(prefix @ str_or rn name, PStr [])])] False]\<rparr>"
    using a(1,2,4,7,9,10)
    by (simp add: command_maker_def new_cm_def scope_def aexit_def setattr_cm_def
      put_attr_def upd_slots_def of_result_def
      compile_leaf_def find_field_def then_stage_def stage_set_def stage_inc_def stage_add_def
      stage_remove_def stage_update_def stage_pop_def build_command_def section_of_def send_def
      empty_acc_def Let_def g c i k copy_val_def split: sum.splits)
qed



theorem default_write_vs_clear_witness:
  "calls (snd (scope ev70 (doc_at 0) clear_body w_person)) =
     [UpdateOne (PInt 1) [(''$unset'', [(''age'', PStr [])])] False] \<and>
   getattr_node (doc_at 0) ''age'' (snd (scope ev70 (doc_at 0) clear_body w_person)) = Inr (PInt 0)"
proof -
  have h: "route_prefix (doc_at 0) = Inr [] \<and> document (doc_at 0) = Inr (doc_at 0) \<and>
      objs w_person (oid (doc_at 0)) = Some (the (objs w_person 0)) \<and>
      map_of (cls_fields (ocls (the (objs w_person 0)))) ''age'' =
        Some (Field (PInt 0) (\<lambda>v. v) (\<lambda>v. v) None) \<and>
      oattrs (the (objs w_person 0)) ''age'' = Some (PInt 20) \<and>
      getattr_node (doc_at 0) ''id'' w_person = Inr (PInt 1) \<and> ''age'' \<notin> set slot_names \<and>
      ''age'' \<noteq> ''id'' \<and> py_eq (PInt 0) (PInt 0) \<and> PInt 0 \<noteq> PEllipsis"
    by (simp add: w_person_def eval_defs slot_names_def)
  have c: "calls w_person = []" "0 < next_oid w_person"
    by (simp_all add: w_person_def eval_defs)
  from default_write_vs_clear [where r = "doc_at 0" and w = w_person and name = "''age''" and ev = ev70
      and v = "PInt 0", THEN mp, OF h]
  have "snd (scope ev70 (doc_at 0) clear_body w_person) =
      (setattr_node (doc_at 0) ''age'' (default (Field (PInt 0) (\<lambda>v. v) (\<lambda>v. v) None)) w_person)
        \<lparr>calls := calls w_person @ [UpdateOne (PInt 1) [(''$unset'', [(''age'', PStr [])])] False]\<rparr>"
    by (simp add: clear_body_def str_or_def)
  then show ?thesis
    using h by (simp add: c getattr_calls_upd getattr_setattr_same copy_val_def)
qed

text \<open>
  C2 as stated fails in its first half: assigning 0, the default of \<^verbatim>\<open>age\<close>, sends a
  \<^verbatim>\<open>$set\<close> section.
\<close>

theorem default_write_sends_set_section:
  "calls (snd (scope ev70 (doc_at 0) default_body w_person)) =
     [UpdateOne (PInt 1) [(''$set'', [(''age'', PNone)])] True]"
  by (simp add: default_body_def w_person_def eval_defs cm_defs)

text \<open>
  C10. Two increments of the same attribute of a proxy leave the proxies as the second
  increment alone does; and a scope that increments an integer attribute by \<open>b1\<close> and
  then by \<open>b2\<close> writes the old value plus \<open>b2\<close> to the attribute and sends that value.
\<close>

theorem last_increment_wins:
  "exec_body [Stmt [] (AugAdd name v1), Stmt [] (AugAdd name v2)] x w' =
     exec_body [Stmt [] (AugAdd name v2)] x w' \<and>
   (route_prefix r = Inr prefix \<and> document r = Inr doc \<and> objs w (oid r) = Some ob \<and>
    map_of (cls_fields (ocls ob)) name = Some (Field d fr tr rn) \<and> oattrs ob name = Some (PInt a) \<and>
    getattr_node doc ''id'' w = Inr i \<and> name \<notin> set (slot_names @ method_names) \<and> name \<noteq> ''id'' \<longrightarrow>
      snd (scope ev r [Stmt [] (AugAdd name (PInt b1)), Stmt [] (AugAdd name (PInt b2))] w) =
        (setattr_node r name (PInt (a + b2)) w)
          \<lparr>calls := calls w @
             [UpdateOne i [(''$set'', [(prefix @ str_or rn name,
                  if py_eq (PInt (a + b2)) d then PNone else tr (PInt (a + b2)))])] True]\<rparr>)"
proof (intro conjI impI, goal_cases)
  case 1
  show ?case by (rule augadd_twice)
next
  case 2
  then have a: "route_prefix r = Inr prefix" "document r = Inr doc" "objs w (oid r) = Some ob"
    "map_of (cls_fields (ocls ob)) name = Some (Field d fr tr rn)" "oattrs ob name = Some (PInt a)"
    "getattr_node doc ''id'' w = Inr i" "name \<notin> set (slot_names @ method_names)" "name \<noteq> ''id''"
    by simp_all
  have g: "getattr_node r name w = Inr (PInt a)" using a by (simp add: getattr_node_def)
  have c: "cls_of r w = ocls ob" using a by (simp add: cls_of_def)
  have i: "getattr_node doc ''id'' (setattr_node r name x w) = Inr i" for x
    using a by (simp add: getattr_setattr_other)
  have k: "calls (setattr_node r name x w) = calls w" for x
    by (simp add: setattr_node_def split: option.splits)
  have e: "exec_body [Stmt [] (AugAdd name (PInt b1)), Stmt [] (AugAdd name (PInt b2))]
             (new_cm prefix None (PNesting r) PNone) w =
           (None, put_attr name (iadd (new_cm name None (PInt a) (PNesting r)) (PInt b2))
                    (new_cm prefix None (PNesting r) PNone), w)"
    unfolding augadd_twice using a(7)
    by (simp add: getattr_cm_def new_cm_def put_attr_def g Let_def)
  have s: "scope ev r [Stmt [] (AugAdd name (PInt b1)), Stmt [] (AugAdd name (PInt b2))] w =
      aexit ev None (put_attr name (iadd (new_cm name None (PInt a) (PNesting r)) (PInt b2))
                    (new_cm prefix None (PNesting r) PNone)) w"
    by (simp only: scope_def command_maker_def a(1) sum.case e prod.case scope_result)
  show ?case
    unfolding s using a(1,2,4)
    by (simp add: aexit_def new_cm_def
      put_attr_def upd_slots_def iadd_def
      compile_leaf_def find_field_def then_stage_def stage_set_def stage_inc_def stage_add_def
      stage_remove_def stage_update_def stage_pop_def build_command_def section_of_def send_def
      empty_acc_def Let_def g c i k copy_val_def split: sum.splits)
qed

theorem last_increment_wins_witness:
  "calls (snd (scope ev70 (doc_at 0) twice_body w_person)) =
     [UpdateOne (PInt 1) [(''$set'', [(''age'', PInt 22)])] True] \<and>
   getattr_node (doc_at 0) ''age'' (snd (scope ev70 (doc_at 0) twice_body w_person)) = Inr (PInt 22)"
proof -
  have h: "route_prefix (doc_at 0) = Inr [] \<and> document (doc_at 0) = Inr (doc_at 0) \<and>
      objs w_person (oid (doc_at 0)) = Some (the (objs w_person 0)) \<and>
      map_of (cls_fields (ocls (the (objs w_person 0)))) ''age'' =
        Some (Field (PInt 0) (\<lambda>v. v) (\<lambda>v. v) None) \<and>
      oattrs (the (objs w_person 0)) ''age'' = Some (PInt 20) \<and>
      getattr_node (doc_at 0) ''id'' w_person = Inr (PInt 1) \<and>
      ''age'' \<notin> set (slot_names @ method_names) \<and> ''age'' \<noteq> ''id''"
    by (simp add: w_person_def eval_defs slot_names_def method_names_def)
  have c: "calls w_person = []"
    by (simp add: w_person_def eval_defs)
  from last_increment_wins [where r = "doc_at 0" and w = w_person and name = "''age''" and ev = ev70
      and ?b1.0 = 1 and ?b2.0 = 2, THEN conjunct2, THEN mp, OF h]
  have "snd (scope ev70 (doc_at 0) twice_body w_person) =
      (setattr_node (doc_at 0) ''age'' (PInt 22) w_person)
        \<lparr>calls := calls w_person @ [UpdateOne (PInt 1) [(''$set'', [(''age'', PInt 22)])] True]\<rparr>"
    by (simp add: twice_body_def str_or_def)
  then show ?thesis
    using h by (simp add: c getattr_calls_upd getattr_setattr_same)
qed

text \<open>
  C9. \<^verbatim>\<open>__aexit__\<close> does the same on a proxy tree and on the tree with the pending
  operations of every proxy that has children removed. For example, assigning 5 to
  \<^verbatim>\<open>profile\<close> and then assigning to \<^verbatim>\<open>profile.nick\<close> ends as the second assignment
  alone does: one \<^verbatim>\<open>$set\<close> of \<^verbatim>\<open>profile.nick\<close>, and \<^verbatim>\<open>profile\<close> still the nested
  document.
\<close>

theorem inner_proxies_are_not_compiled:
  "aexit ev exc (clear_inner self) w = aexit ev exc self w \<and>
   scope ev70 (doc_at 0) shadow_body w_person = scope ev70 (doc_at 0) nick_body w_person \<and>
   calls (snd (scope ev70 (doc_at 0) shadow_body w_person)) =
     [UpdateOne (PInt 1) [(''$set'', [(''profile.nick'', PStr ''x'')])] True] \<and>
   getattr_node (doc_at 0) ''profile'' (snd (scope ev70 (doc_at 0) shadow_body w_person)) =
     getattr_node (doc_at 0) ''profile'' w_person"
proof (intro conjI)
  show "aexit ev exc (clear_inner self) w = aexit ev exc self w"
    by (simp add: aexit_def iter_leaves_clear_inner inject_clear_inner send_clear_inner
        cong: option.case_cong prod.case_cong sum.case_cong)
  show "scope ev70 (doc_at 0) shadow_body w_person = scope ev70 (doc_at 0) nick_body w_person"
    by (simp add: shadow_body_def nick_body_def w_person_def eval_defs cm_defs)
  show "calls (snd (scope ev70 (doc_at 0) shadow_body w_person)) =
     [UpdateOne (PInt 1) [(''$set'', [(''profile.nick'', PStr ''x'')])] True]"
    by (simp add: shadow_body_def nick_body_def w_person_def eval_defs cm_defs)
  show "getattr_node (doc_at 0) ''profile'' (snd (scope ev70 (doc_at 0) shadow_body w_person)) =
     getattr_node (doc_at 0) ''profile'' w_person"
    by (simp add: shadow_body_def nick_body_def w_person_def eval_defs cm_defs)
qed


section \<open>Paths\<close>

lemmas nest_defs = leaf_cls_def mid_cls_def root_cls_def nested_data_def w_nested_def w_bare_def
  leaf_body_def getitem_cm_def

text \<open>
  C4. The route prefix of a document is the empty string; the one of a nesting with a
  parent is the parent's prefix, the nesting's \<^verbatim>\<open>mongo_name\<close> (its alias when that is
  set and not empty, else its mount name) and a dot; the one of a nesting without a
  parent raises \<^verbatim>\<open>ValueError\<close>. In the three-level graph a scope that assigns the
  leaf field sends the path \<^verbatim>\<open>outer.{k1}.inner.{k2}.field\<close>, whether the two nested
  documents were stored or are made by the scope.
\<close>

theorem route_prefix_paths:
  "(nkind r = NiceDocumentK \<longrightarrow> route_prefix r = Inr []) \<and>
   (nkind r = NiceNestingK \<and> nparent r = Some p \<longrightarrow>
      route_prefix r =
        (case route_prefix p of Inl e \<Rightarrow> Inl e | Inr s \<Rightarrow> Inr (s @ mongo_name r @ ''.''))) \<and>
   (nkind r = NiceNestingK \<and> nparent r = None \<longrightarrow> route_prefix r = Inl ValueError) \<and>
   mongo_name r = (case nalias r of None \<Rightarrow> nname r | Some a \<Rightarrow> if a = [] then nname r else a) \<and>
   calls (snd (scope ev70 (doc_at 0) (leaf_body k1 k2) (w_nested k1 k2))) =
     [UpdateOne (PInt 1) [(''$set'', [(''outer.'' @ k1 @ ''.inner.'' @ k2 @ ''.field'', PInt 7)])] True] \<and>
   calls (snd (scope ev70 (doc_at 0) (leaf_body k1 k2) w_bare)) =
     [UpdateOne (PInt 1) [(''$set'', [(''outer.'' @ k1 @ ''.inner.'' @ k2 @ ''.field'', PInt 7)])] True]"
proof -
  have a: "(nkind r = NiceDocumentK \<longrightarrow> route_prefix r = Inr []) \<and>
   (nkind r = NiceNestingK \<and> nparent r = Some p \<longrightarrow>
      route_prefix r =
        (case route_prefix p of Inl e \<Rightarrow> Inl e | Inr s \<Rightarrow> Inr (s @ mongo_name r @ ''.''))) \<and>
   (nkind r = NiceNestingK \<and> nparent r = None \<longrightarrow> route_prefix r = Inl ValueError) \<and>
   mongo_name r = (case nalias r of None \<Rightarrow> nname r | Some a \<Rightarrow> if a = [] then nname r else a)"
    by (cases r; cases p)
       (auto simp: mongo_name_def str_or_def split: option.splits sum.splits kind.splits)
  have b: "calls (snd (scope ev70 (doc_at 0) (leaf_body k1 k2) (w_nested k1 k2))) =
     [UpdateOne (PInt 1) [(''$set'', [(''outer.'' @ k1 @ ''.inner.'' @ k2 @ ''.field'', PInt 7)])] True]"
    by (simp add: nest_defs eval_defs cm_defs)
  have c: "calls (snd (scope ev70 (doc_at 0) (leaf_body k1 k2) w_bare)) =
     [UpdateOne (PInt 1) [(''$set'', [(''outer.'' @ k1 @ ''.inner.'' @ k2 @ ''.field'', PInt 7)])] True]"
    by (simp add: nest_defs eval_defs cm_defs)
  from a b c show ?thesis by blast
qed

theorem route_prefix_paths_witness:
  "route_prefix (doc_at 0) = Inr [] \<and>
   route_prefix (NRef 1 NiceNestingK (Some (doc_at 0)) ''profile'' None) = Inr ''profile.'' \<and>
   route_prefix (NRef 2 NiceNestingK (Some (NRef 1 NiceNestingK (Some (doc_at 0)) ''profile'' None))
                   [] (Some ''things.k'')) = Inr ''profile.things.k.'' \<and>
   route_prefix (NRef 3 NiceNestingK None ''loose'' None) = Inl ValueError"
  using route_prefix_paths [of "doc_at 0" "doc_at 0"]
        route_prefix_paths [of "NRef 1 NiceNestingK (Some (doc_at 0)) ''profile'' None" "doc_at 0"]
        route_prefix_paths [of "NRef 2 NiceNestingK (Some (NRef 1 NiceNestingK (Some (doc_at 0)) ''profile'' None))
                   [] (Some ''things.k'')" "NRef 1 NiceNestingK (Some (doc_at 0)) ''profile'' None"]
        route_prefix_paths [of "NRef 3 NiceNestingK None ''loose'' None"]
  by (simp add: doc_at_def mongo_name_def str_or_def)

section \<open>Defaults\<close>

text \<open>
  C5, as the code has it. For a field whose default is a container, in a store where
  no address at or above the next free one is in use: two deserializations of an absent
  wire value give two new containers at different addresses, each with the elements of
  the default's container, and leave every container that existed as it was; and a
  placeholder construction gives the attribute such a new container. The copy is
  shallow: the elements are the default's own, so a container inside the default is
  reached from every instance.
\<close>

theorem default_is_shallow_copy:
  "cells st p = Some ob \<and> (\<forall>x\<ge>fresh st. cells st x = None) \<longrightarrow>
     (case from_raw_obj (HRef p) fr HNone st of
        (a, st1) \<Rightarrow>
          (case from_raw_obj (HRef p) fr HNone st1 of
             (b, st2) \<Rightarrow>
               a = HRef (fresh st) \<and> b = HRef (Suc (fresh st)) \<and>
               containers 0 st2 a \<inter> containers 0 st2 b = {} \<and>
               cells st2 (fresh st) = Some ob \<and> cells st2 (Suc (fresh st)) = Some ob \<and>
               (\<forall>x. cells st x \<noteq> None \<longrightarrow> cells st2 x = cells st x))) \<and>
     minimal_obj [(name, HRef p)] st =
       ([(name, HRef (fresh st))],
        st\<lparr>cells := (cells st)(fresh st \<mapsto> ob), fresh := Suc (fresh st)\<rparr>)"
proof (intro impI, elim conjE)
  assume p: "cells st p = Some ob" and f: "\<forall>x\<ge>fresh st. cells st x = None"
  from p f have n: "p \<noteq> fresh st" "p \<noteq> Suc (fresh st)" by auto
  from f have k: "cells st x \<noteq> None \<Longrightarrow> x \<noteq> fresh st \<and> x \<noteq> Suc (fresh st)" for x by auto
  show "(case from_raw_obj (HRef p) fr HNone st of
        (a, st1) \<Rightarrow>
          (case from_raw_obj (HRef p) fr HNone st1 of
             (b, st2) \<Rightarrow>
               a = HRef (fresh st) \<and> b = HRef (Suc (fresh st)) \<and>
               containers 0 st2 a \<inter> containers 0 st2 b = {} \<and>
               cells st2 (fresh st) = Some ob \<and> cells st2 (Suc (fresh st)) = Some ob \<and>
               (\<forall>x. cells st x \<noteq> None \<longrightarrow> cells st2 x = cells st x))) \<and>
     minimal_obj [(name, HRef p)] st =
       ([(name, HRef (fresh st))],
        st\<lparr>cells := (cells st)(fresh st \<mapsto> ob), fresh := Suc (fresh st)\<rparr>)"
    using p n k by (auto simp: from_raw_obj_def default_obj_def copy_def containers_def)
qed


theorem default_is_shallow_copy_witness:
  "fst (from_raw_obj (HRef 0) (\<lambda>v. v) HNone st_nested) = HRef 2 \<and>
   cells (snd (from_raw_obj (HRef 0) (\<lambda>v. v) HNone st_nested)) 2 = Some (HList [HRef 1]) \<and>
   minimal_obj [(''items'', HRef 0)] st_nested =
     ([(''items'', HRef 2)], st_nested\<lparr>cells := (cells st_nested)(2 \<mapsto> HList [HRef 1]), fresh := 3\<rparr>)"
proof -
  have h: "cells st_nested 0 = Some (HList [HRef 1]) \<and> (\<forall>x\<ge>fresh st_nested. cells st_nested x = None)"
    by (simp add: st_nested_def)
  have f: "fresh st_nested = 2" by (simp add: st_nested_def)
  from default_is_shallow_copy [of st_nested 0 "HList [HRef 1]" "\<lambda>v. v" "''items''", THEN mp, OF h]
  show ?thesis
    by (auto simp: f from_raw_obj_def default_obj_def copy_def split: prod.splits)
qed


text \<open>
  C5 as stated fails below the top level: with the default \<^verbatim>\<open>[[1]]\<close>, two
  deserializations of an absent value give two different lists that hold the same
  inner list.
\<close>

theorem nested_default_is_shared:
  "(case from_raw_obj (HRef 0) (\<lambda>v. v) HNone st_nested of
      (a, st1) \<Rightarrow>
        (case from_raw_obj (HRef 0) (\<lambda>v. v) HNone st1 of
           (b, st2) \<Rightarrow> a \<noteq> b \<and> 1 \<in> containers 1 st2 a \<inter> containers 1 st2 b))"
  by (simp add: from_raw_obj_def default_obj_def copy_def containers_def st_nested_def)

end
